theory Spec2Isabelle
  imports
    Main
    "HOL-Library.Char_ord"
    "HOL-Library.List_Lexorder"
    "HOL-Library.Option_ord"
    "HOL-Library.Product_Lexorder"
    "HOL-Library.Multiset"
begin

section \<open>Values, failures and the external collaborators\<close>

text \<open>
  The orchestration engine of \<^verbatim>\<open>submission/automation.py\<close>: the work-unit
  handle (class Importer) and the orchestrator (class Automator).

  Python values that travel through keyword arguments are strings, integers,
  booleans or None.
\<close>

datatype pyval = PNone | PBool bool | PInt int | PStr string

text \<open>
  Failures are Python exceptions deriving from Exception, which is what every
  handler of the module catches. UnTransferrableException is the distinguished
  "not transferable" failure; the others are the built-in exceptions the module
  can meet and a generic one for whatever a collaborator raises.
\<close>

datatype exn =
    UnTransferrableException string
  | AttributeError string
  | KeyError string
  | IndexError string
  | ValueError string
  | Exception string

fun is_UnTransferrableException :: "exn \<Rightarrow> bool" where
  "is_UnTransferrableException (UnTransferrableException m) = True"
| "is_UnTransferrableException e = False"

text \<open>
  The pipeline and its transferer are external objects (modules pipelines and
  transferer are collaborators of this module). They are taken as parameters:
  a transferer answers its n-th call of \<^verbatim>\<open>check_checksums()\<close> with
  \<open>check_checksums_outcome n\<close> (a boolean, or a failure), a pipeline answers its
  n-th call of \<^verbatim>\<open>run()\<close> with \<open>run_outcome n\<close> (None when it returns, a failure
  when it raises). The call counters are the objects' state; every behaviour of a
  collaborator over time is some choice of the two outcome functions.
\<close>

record transferer_state =
  check_checksums_outcome :: "nat \<Rightarrow> exn + bool"
  check_checksums_calls :: nat

record pipeline_state =
  transferer :: transferer_state
  run_outcome :: "nat \<Rightarrow> exn option"
  run_calls :: nat

type_synonym kwargs = "(string \<times> pyval) list"

type_synonym builder = "pyval list \<Rightarrow> kwargs \<Rightarrow> exn + pipeline_state"

text \<open>The five pipeline builders imported from module pipelines, as parameters.\<close>

record builders =
  build_import_montage_pipeline :: builder
  build_events_pipeline :: builder
  build_split_pipeline :: builder
  build_convert_events_pipeline :: builder
  build_convert_eeg_pipeline :: builder

section \<open>The work-unit handle: class Importer\<close>

definition MONTAGE :: int where "MONTAGE = 1"
definition BUILD_EVENTS :: int where "BUILD_EVENTS = 2"
definition BUILD_EPHYS :: int where "BUILD_EPHYS = 3"
definition CONVERT_EVENTS :: int where "CONVERT_EVENTS = 4"
definition CONVERT_EPHYS :: int where "CONVERT_EPHYS = 5"

definition PIPELINE_BUILDERS :: "builders \<Rightarrow> int \<rightharpoonup> builder" where
  "PIPELINE_BUILDERS b = map_of
     [(MONTAGE, build_import_montage_pipeline b),
      (BUILD_EVENTS, build_events_pipeline b),
      (BUILD_EPHYS, build_split_pipeline b),
      (CONVERT_EVENTS, build_convert_events_pipeline b),
      (CONVERT_EPHYS, build_convert_eeg_pipeline b)]"

definition LABELS :: "int \<rightharpoonup> string" where
  "LABELS = map_of
     [(MONTAGE, ''Montage Importer''),
      (BUILD_EVENTS, ''Events Builder''),
      (BUILD_EPHYS, ''Ephys Builder''),
      (CONVERT_EVENTS, ''Events Converter''),
      (CONVERT_EPHYS, ''Ephys Converter'')]"

text \<open>
  The keys of the \<^verbatim>\<open>errors\<close> dictionary: the module only ever reads and writes
  the four literals 'init', 'check', 'transfer' and 'processing'. A slot holds
  None or the exception stored there.
\<close>

datatype error_type = Init | Check | Transfer | Processing

text \<open>
  The attributes of an Importer. \<open>priv_should_transfer\<close> is the attribute
  \<^verbatim>\<open>_should_transfer\<close> (None, True or False). The attribute \<^verbatim>\<open>transferer\<close> is
  set once, to \<^verbatim>\<open>self.pipeline.transferer\<close> or to None together with the
  pipeline: it is an alias of the pipeline's transferer, so the model keeps the one
  object inside \<open>pipeline\<close> and \<open>check\<close> reaches the transferer through it.
\<close>

record importer =
  label :: string
  args :: "pyval list"
  kwargs :: kwargs
  subject :: pyval
  errors :: "error_type \<Rightarrow> exn option"
  priv_should_transfer :: "bool option"
  errored :: bool
  processed :: bool
  transferred :: bool
  pipeline :: "pipeline_state option"
  initialized :: bool

definition set_error :: "error_type \<Rightarrow> exn \<Rightarrow> importer \<Rightarrow> importer" where
  "set_error error_type error self =
     self\<lparr>errors := (errors self)(error_type := Some error), errored := True\<rparr>"

text \<open>
  \<^verbatim>\<open>Importer.__init__(type, *args, **kwargs)\<close>. An unregistered type raises
  UnTransferrableException, a missing label or 'subject' keyword raises KeyError
  (all three propagate: \<open>Inl\<close>; the two dictionaries have the same keys, so the
  label is never missing for a registered type). A failure of the builder is caught and stored in the init
  slot.
\<close>

definition Importer_init :: "builders \<Rightarrow> int \<Rightarrow> pyval list \<Rightarrow> kwargs \<Rightarrow> exn + importer" where
  "Importer_init b type as kw =
     (case PIPELINE_BUILDERS b type of
        None \<Rightarrow> Inl (UnTransferrableException ''Cannot build importer for type'')
      | Some build \<Rightarrow>
          (case LABELS type of
             None \<Rightarrow> Inl (KeyError ''type'')
           | Some lab \<Rightarrow>
          (case map_of kw ''subject'' of
             None \<Rightarrow> Inl (KeyError ''subject'')
           | Some subj \<Rightarrow>
               let self = \<lparr>label = lab, args = as, kwargs = kw, subject = subj,
                            errors = (\<lambda>k. None), priv_should_transfer = None,
                            errored = False, processed = False, transferred = False,
                            pipeline = None, initialized = False\<rparr>
               in (case build as kw of
                     Inr p \<Rightarrow> Inr (self\<lparr>pipeline := Some p, initialized := True\<rparr>)
                   | Inl e \<Rightarrow>
                       Inr ((set_error Init e self)\<lparr>pipeline := None, initialized := False\<rparr>)))))"

text \<open>
  \<^verbatim>\<open>check()\<close>: the transferer's answer is stored in \<^verbatim>\<open>_should_transfer\<close>; a
  failure is stored in the check slot and \<^verbatim>\<open>_should_transfer\<close> becomes False.
  On a handle without a transferer the attribute access on None raises
  AttributeError, which the same handler catches. Returns the stored value and the
  handle after the call.
\<close>

definition check :: "importer \<Rightarrow> bool \<times> importer" where
  "check self =
     (case pipeline self of
        None \<Rightarrow>
          (False,
           (set_error Check (AttributeError ''check_checksums'') self)
             \<lparr>priv_should_transfer := Some False\<rparr>)
      | Some p \<Rightarrow>
          let t = transferer p;
              p' = p\<lparr>transferer := t\<lparr>check_checksums_calls := Suc (check_checksums_calls t)\<rparr>\<rparr>;
              self' = self\<lparr>pipeline := Some p'\<rparr>
          in (case check_checksums_outcome t (check_checksums_calls t) of
                Inr v \<Rightarrow> (v, self'\<lparr>priv_should_transfer := Some v\<rparr>)
              | Inl e \<Rightarrow> (False, (set_error Check e self')\<lparr>priv_should_transfer := Some False\<rparr>)))"

text \<open>The property \<^verbatim>\<open>should_transfer\<close>: the value read and the handle after the read.\<close>

definition should_transfer :: "importer \<Rightarrow> bool option \<times> importer" where
  "should_transfer self =
     (if initialized self \<and> priv_should_transfer self = None
      then (let (v, self') = check self in (priv_should_transfer self', self'))
      else (priv_should_transfer self, self))"

text \<open>
  \<^verbatim>\<open>run()\<close>: there is no test of \<^verbatim>\<open>initialized\<close>; on a handle whose pipeline is
  None the call \<^verbatim>\<open>self.pipeline.run()\<close> raises AttributeError, which is not an
  UnTransferrableException and so lands in the second handler.
\<close>

definition run :: "importer \<Rightarrow> importer" where
  "run self =
     (case pipeline self of
        None \<Rightarrow> set_error Processing (AttributeError ''run'') self
      | Some p \<Rightarrow>
          let self' = self\<lparr>pipeline := Some (p\<lparr>run_calls := Suc (run_calls p)\<rparr>)\<rparr>
          in (case run_outcome p (run_calls p) of
                None \<Rightarrow> self'\<lparr>processed := True, transferred := True\<rparr>
              | Some e \<Rightarrow>
                  if is_UnTransferrableException e then set_error Transfer e self'
                  else set_error Processing e self'))"

text \<open>
  Sequences of calls on one handle: \<open>OpCheck\<close> is an explicit \<^verbatim>\<open>check()\<close>,
  \<open>OpRead\<close> a read of the property \<^verbatim>\<open>should_transfer\<close>, \<open>OpRun\<close> a call of
  \<^verbatim>\<open>run()\<close>. The reachable states of a handle are those \<open>exec\<close> produces from a
  handle that \<open>Importer_init\<close> returned.
\<close>

datatype op = OpCheck | OpRead | OpRun

fun apply_op :: "op \<Rightarrow> importer \<Rightarrow> importer" where
  "apply_op OpCheck self = snd (check self)"
| "apply_op OpRead self = snd (should_transfer self)"
| "apply_op OpRun self = run self"

fun exec :: "op list \<Rightarrow> importer \<Rightarrow> importer" where
  "exec [] self = self"
| "exec (x # xs) self = exec xs (apply_op x self)"

text \<open>Reading the property \<open>n\<close> times in a row, keeping the values read.\<close>

fun reads :: "nat \<Rightarrow> importer \<Rightarrow> bool option list \<times> importer" where
  "reads 0 self = ([], self)"
| "reads (Suc n) self =
     (let (v, self') = should_transfer self; (vs, self'') = reads n self' in (v # vs, self''))"

definition check_calls :: "importer \<Rightarrow> nat" where
  "check_calls self =
     (case pipeline self of None \<Rightarrow> 0 | Some p \<Rightarrow> check_checksums_calls (transferer p))"

text \<open>
  What a handle has seen of its collaborators: the number of \<^verbatim>\<open>run()\<close> calls its
  pipeline has answered, and the answer a collaborator gives to its i-th call. A
  handle without a pipeline meets the AttributeError of the call on None instead.
\<close>

definition run_calls_of :: "importer \<Rightarrow> nat" where
  "run_calls_of self = (case pipeline self of None \<Rightarrow> 0 | Some p \<Rightarrow> run_calls p)"

definition check_outcome_at :: "importer \<Rightarrow> nat \<Rightarrow> exn + bool" where
  "check_outcome_at self i =
     (case pipeline self of
        None \<Rightarrow> Inl (AttributeError ''check_checksums'')
      | Some p \<Rightarrow> check_checksums_outcome (transferer p) i)"

definition run_outcome_at :: "importer \<Rightarrow> nat \<Rightarrow> exn option" where
  "run_outcome_at self i =
     (case pipeline self of
        None \<Rightarrow> Some (AttributeError ''run'')
      | Some p \<Rightarrow> run_outcome p i)"

text \<open>
  The history of a handle \<open>h\<close> since its construction as \<open>h0\<close>: some call of
  \<^verbatim>\<open>run()\<close> (of \<^verbatim>\<open>check_checksums()\<close>) made in between had an outcome
  satisfying \<open>Q\<close>.
\<close>

fun raised_untransferrable :: "exn option \<Rightarrow> bool" where
  "raised_untransferrable None = False"
| "raised_untransferrable (Some e) = is_UnTransferrableException e"

fun raised_other :: "exn option \<Rightarrow> bool" where
  "raised_other None = False"
| "raised_other (Some e) = (\<not> is_UnTransferrableException e)"

definition run_seen :: "importer \<Rightarrow> importer \<Rightarrow> (exn option \<Rightarrow> bool) \<Rightarrow> bool" where
  "run_seen h0 h Q \<longleftrightarrow> (\<exists>i \<in> {run_calls_of h0 ..< run_calls_of h}. Q (run_outcome_at h0 i))"

definition check_seen :: "importer \<Rightarrow> importer \<Rightarrow> (exn + bool \<Rightarrow> bool) \<Rightarrow> bool" where
  "check_seen h0 h Q \<longleftrightarrow> (\<exists>i \<in> {check_calls h0 ..< check_calls h}. Q (check_outcome_at h0 i))"

text \<open>
  Invariants of the states reached from \<open>h0\<close>. The shape of a handle is fixed at
  construction; the check slot and the memoized value reflect the checks made;
  the flags and the transfer and processing slots reflect the runs made.
\<close>

definition shape_inv :: "importer \<Rightarrow> importer \<Rightarrow> bool" where
  "shape_inv h0 h \<longleftrightarrow>
     initialized h = initialized h0 \<and>
     (pipeline h = None) = (pipeline h0 = None) \<and>
     check_outcome_at h = check_outcome_at h0 \<and>
     run_outcome_at h = run_outcome_at h0 \<and>
     check_calls h0 \<le> check_calls h \<and>
     run_calls_of h0 \<le> run_calls_of h \<and>
     kwargs h = kwargs h0 \<and> subject h = subject h0 \<and> label h = label h0"

definition check_inv :: "importer \<Rightarrow> importer \<Rightarrow> bool" where
  "check_inv h0 h \<longleftrightarrow>
     (pipeline h0 = None \<longrightarrow> priv_should_transfer h \<noteq> Some True) \<and>
     (pipeline h0 \<noteq> None \<longrightarrow>
        (errors h Check \<noteq> None \<longleftrightarrow> check_seen h0 h isl) \<and>
        (check_calls h = check_calls h0 \<longrightarrow> priv_should_transfer h = None) \<and>
        (check_calls h0 < check_calls h \<longrightarrow>
           priv_should_transfer h =
             Some (case check_outcome_at h0 (check_calls h - 1) of
                     Inr v \<Rightarrow> v | Inl e \<Rightarrow> False)))"

definition run_inv :: "importer \<Rightarrow> importer \<Rightarrow> bool" where
  "run_inv h0 h \<longleftrightarrow>
     processed h = transferred h \<and>
     (pipeline h0 = None \<longrightarrow> \<not> processed h) \<and>
     (pipeline h0 \<noteq> None \<longrightarrow>
        (processed h \<longleftrightarrow> run_seen h0 h (\<lambda>r. r = None)) \<and>
        (errors h Transfer \<noteq> None \<longleftrightarrow> run_seen h0 h raised_untransferrable) \<and>
        (errors h Processing \<noteq> None \<longleftrightarrow> run_seen h0 h raised_other))"

section \<open>The hierarchical index\<close>

text \<open>
  The index (JsonIndexReader of package ptsa) is an external, read-only
  capability, taken as a parameter. A query fixes some of the levels; a
  \<^verbatim>\<open>filtered(...)\<close> view is the same reader with more levels fixed (field
  \<open>fixed\<close>). Values are taken at the types the module computes with: session
  numbers and the attribute 'original_session' are integers (the module adds one
  to both), names, montages and aliases are strings. A lookup of an attribute
  that is absent raises KeyError (here: None).
\<close>

record query =
  q_experiment :: "string option"
  q_subject :: "string option"
  q_session :: "int option"
  q_montage :: "string option"

record index =
  experiments_of :: "query \<Rightarrow> string list"
  subjects_of :: "query \<Rightarrow> string list"
  sessions_of :: "query \<Rightarrow> int list"
  montages_of :: "query \<Rightarrow> string list"
  int_value_of :: "string \<Rightarrow> query \<Rightarrow> int option"
  str_value_of :: "string \<Rightarrow> query \<Rightarrow> string option"
  fixed :: query

definition filtered :: "(query \<Rightarrow> query) \<Rightarrow> index \<Rightarrow> index" where
  "filtered f idx = idx\<lparr>fixed := f (fixed idx)\<rparr>"

definition experiments :: "index \<Rightarrow> string list" where
  "experiments idx = experiments_of idx (fixed idx)"

definition subjects :: "index \<Rightarrow> string list" where
  "subjects idx = subjects_of idx (fixed idx)"

definition sessions :: "index \<Rightarrow> int list" where
  "sessions idx = sessions_of idx (fixed idx)"

definition montages :: "index \<Rightarrow> (query \<Rightarrow> query) \<Rightarrow> string list" where
  "montages idx f = montages_of idx (f (fixed idx))"

definition get_value_int :: "index \<Rightarrow> string \<Rightarrow> (query \<Rightarrow> query) \<Rightarrow> exn + int" where
  "get_value_int idx name f =
     (case int_value_of idx name (f (fixed idx)) of
        None \<Rightarrow> Inl (KeyError name) | Some v \<Rightarrow> Inr v)"

definition get_value_str :: "index \<Rightarrow> string \<Rightarrow> (query \<Rightarrow> query) \<Rightarrow> exn + string" where
  "get_value_str idx name f =
     (case str_value_of idx name (f (fixed idx)) of
        None \<Rightarrow> Inl (KeyError name) | Some v \<Rightarrow> Inr v)"

section \<open>Python built-ins the orchestrator uses\<close>

text \<open>\<^verbatim>\<open>s.split(sep)\<close> for a one-character separator: one more part than separators.\<close>

fun split_on :: "char \<Rightarrow> string \<Rightarrow> string list" where
  "split_on sep [] = [[]]"
| "split_on sep (c # cs) =
     (if c = sep then [] # split_on sep cs
      else (case split_on sep cs of
              [] \<Rightarrow> [[c]]
            | part # parts \<Rightarrow> (c # part) # parts))"

text \<open>\<^verbatim>\<open>xs[i]\<close> for a non-negative literal index: IndexError out of range.\<close>

definition item :: "'a list \<Rightarrow> nat \<Rightarrow> exn + 'a" where
  "item xs i = (if i < length xs then Inr (xs ! i) else Inl (IndexError ''list index out of range''))"

text \<open>\<^verbatim>\<open>max(xs)\<close>: ValueError on an empty sequence.\<close>

definition py_max :: "'a::linorder list \<Rightarrow> exn + 'a" where
  "py_max xs = (case xs of [] \<Rightarrow> Inl (ValueError ''max() arg is an empty sequence'')
                | x # rest \<Rightarrow> Inr (fold max rest x))"

text \<open>
  A \<^verbatim>\<open>for\<close> loop whose body updates the importer list and may raise: the loop
  stops at the first exception, and what was appended before it stays appended.
\<close>

fun for_each :: "('a \<Rightarrow> 's \<Rightarrow> 's \<times> exn option) \<Rightarrow> 'a list \<Rightarrow> 's \<Rightarrow> 's \<times> exn option" where
  "for_each body [] s = (s, None)"
| "for_each body (x # xs) s =
     (case body x s of
        (s', None) \<Rightarrow> for_each body xs s'
      | (s', Some e) \<Rightarrow> (s', Some e))"

section \<open>The orchestrator: class Automator\<close>

text \<open>
  \<^verbatim>\<open>EXPERIMENTS\<close> is a dictionary from a protocol name to a tuple of experiment
  names; \<^verbatim>\<open>MATH_TASKS\<close> is a tuple.
\<close>

definition EXPERIMENTS :: "(string \<times> string list) list" where
  "EXPERIMENTS =
     [(''r1'', [''FR1'', ''FR2'', ''FR3'',
               ''catFR1'', ''catFR2'', ''catFR3'',
               ''PAL1'', ''PAL2'', ''PAL3'',
               ''TH1'', ''TH2'', ''TH3'',
               ''PS1'', ''PS2'', ''PS3''])]"

definition MATH_TASKS :: "string list" where
  "MATH_TASKS = [''FR1'', ''FR2'', ''FR3'', ''catFR1'', ''catFR2'', ''catFR3'',
                 ''PAL1'', ''PAL2'', ''PAL3'', ''ltpFR'', ''ltpFR2'']"

definition INCLUDE_TRANSFERRED :: bool where
  "INCLUDE_TRANSFERRED = False"

text \<open>
  The state of an Automator that the phases change is the list
  \<^verbatim>\<open>self.importers\<close>; the protocol and the index are read only. A phase returns
  the list after it and the exception that ended it, if one did.
\<close>

definition montage_step ::
  "builders \<Rightarrow> string \<Rightarrow> index \<Rightarrow> string \<Rightarrow> string \<Rightarrow> importer list \<Rightarrow> importer list \<times> exn option" where
  "montage_step b protocol idx subj montage importers =
     (case item (split_on CHR ''.'' montage) 1 of
        Inl e \<Rightarrow> (importers, Some e)
      | Inr num \<Rightarrow>
     (case get_value_str idx ''subject_alias''
             (\<lambda>q. q\<lparr>q_subject := Some subj, q_montage := Some num\<rparr>) of
        Inl e \<Rightarrow> (importers, Some e)
      | Inr code \<Rightarrow>
     (case Importer_init b MONTAGE []
             [(''subject'', PStr subj), (''montage'', PStr montage),
              (''protocol'', PStr protocol), (''code'', PStr code)] of
        Inl e \<Rightarrow> (importers, Some e)
      | Inr importer0 \<Rightarrow>
          let (c, importer) = check importer0
          in if c \<or> errored importer \<or> INCLUDE_TRANSFERRED
             then (importers @ [importer], None)
             else (importers, None))))"

definition add_existing_montage_importers ::
  "builders \<Rightarrow> string \<Rightarrow> index \<Rightarrow> importer list \<Rightarrow> importer list \<times> exn option" where
  "add_existing_montage_importers b protocol idx =
     for_each
       (\<lambda>subj. for_each (montage_step b protocol idx subj)
                  (montages idx (\<lambda>q. q\<lparr>q_subject := Some subj\<rparr>)))
       (subjects idx)"

definition session_indexes :: "index \<Rightarrow> (string \<times> string \<times> int \<times> index) list" where
  "session_indexes idx =
     concat (map (\<lambda>experiment.
       let exp_index = filtered (\<lambda>q. q\<lparr>q_experiment := Some experiment\<rparr>) idx
       in concat (map (\<lambda>subj.
            let subj_index = filtered (\<lambda>q. q\<lparr>q_subject := Some subj\<rparr>) exp_index
            in map (\<lambda>session.
                 (subj, experiment, session,
                  filtered (\<lambda>q. q\<lparr>q_session := Some session\<rparr>) subj_index))
                 (sessions subj_index))
            (subjects exp_index)))
       (experiments idx))"

definition build_existing_event_importer_kwargs ::
  "string \<Rightarrow> string \<Rightarrow> string \<Rightarrow> int \<Rightarrow> index \<Rightarrow> bool \<Rightarrow> exn + kwargs" where
  "build_existing_event_importer_kwargs protocol subj experiment session idx do_compare =
     (case item (montages idx id) 0 of
        Inl e \<Rightarrow> Inl e
      | Inr montage \<Rightarrow>
          let do_math = (experiment \<in> set MATH_TASKS)
          in (case get_value_str idx ''subject_alias'' id of
                Inl e \<Rightarrow> Inl e
              | Inr code \<Rightarrow>
                  let original_session =
                        (case get_value_int idx ''original_session'' id of
                           Inr v \<Rightarrow> v | Inl e \<Rightarrow> session);
                      original_experiment =
                        (case get_value_str idx ''original_experiment'' id of
                           Inr v \<Rightarrow> v | Inl e \<Rightarrow> experiment)
                  in Inr [(''subject'', PStr subj), (''montage'', PStr montage),
                          (''experiment'', PStr original_experiment), (''session'', PInt session),
                          (''new_experiment'', PStr experiment),
                          (''original_session'', PInt original_session),
                          (''do_math'', PBool do_math), (''protocol'', PStr protocol),
                          (''code'', PStr code), (''do_compare'', PBool do_compare)]))"

text \<open>
  Lines 201 to 216 of the module: the fallback between the events builder and
  the events converter for one session, given its keyword arguments.
\<close>

definition existing_events_cascade ::
  "builders \<Rightarrow> kwargs \<Rightarrow> importer list \<Rightarrow> importer list \<times> exn option" where
  "existing_events_cascade b kw importers =
     (case Importer_init b BUILD_EVENTS [] kw of
        Inl e \<Rightarrow> (importers, Some e)
      | Inr importer0 \<Rightarrow>
          let (c, importer) = check importer0
          in if \<not> c \<and> \<not> errored importer then (importers, None)
             else if \<not> errored importer then (importers @ [importer], None)
             else (case Importer_init b CONVERT_EVENTS [] kw of
                     Inl e \<Rightarrow> (importers, Some e)
                   | Inr importer20 \<Rightarrow>
                       let (c2, importer2) = check importer20
                       in if \<not> c2 \<and> \<not> errored importer2 then (importers, None)
                          else if \<not> errored importer then (importers @ [importer], None)
                          else if \<not> errored importer2 then (importers @ [importer2], None)
                          else (importers @ [importer], None)))"

definition existing_events_step ::
  "builders \<Rightarrow> string \<Rightarrow> string \<times> string \<times> int \<times> index \<Rightarrow> importer list
     \<Rightarrow> importer list \<times> exn option" where
  "existing_events_step b protocol = (\<lambda>(subj, experiment, session, idx) importers.
     (case build_existing_event_importer_kwargs protocol subj experiment session idx True of
        Inl e \<Rightarrow> (importers, Some e)
      | Inr kw \<Rightarrow> existing_events_cascade b kw importers))"

text \<open>
  The keyword arguments the phase builds for an enumerated session, and the
  handles that are to be retained for a session with given keyword arguments,
  in the words of the fallback policy: none if the BuildEvents check is negative
  and the handle error-free; else the BuildEvents handle if it is error-free;
  otherwise, with a ConvertEvents handle built from the same keyword arguments,
  none if its check is negative and it is error-free, else the ConvertEvents
  handle if it alone is error-free, and the BuildEvents handle if both errored.
\<close>

definition session_kwargs :: "string \<Rightarrow> string \<times> string \<times> int \<times> index \<Rightarrow> exn + kwargs" where
  "session_kwargs protocol = (\<lambda>(subj, experiment, session, idx).
     build_existing_event_importer_kwargs protocol subj experiment session idx True)"

definition fallback_retained :: "builders \<Rightarrow> kwargs \<Rightarrow> importer list" where
  "fallback_retained b kw =
     (case Importer_init b BUILD_EVENTS [] kw of
        Inl e \<Rightarrow> []
      | Inr build0 \<Rightarrow>
          let (cb, build) = check build0
          in if \<not> cb \<and> \<not> errored build then []
             else if \<not> errored build then [build]
             else (case Importer_init b CONVERT_EVENTS [] kw of
                     Inl e \<Rightarrow> []
                   | Inr convert0 \<Rightarrow>
                       let (cc, convert) = check convert0
                       in if \<not> cc \<and> \<not> errored convert then []
                          else if errored build \<and> \<not> errored convert then [convert]
                          else [build]))"

definition add_existing_events_importers ::
  "builders \<Rightarrow> string \<Rightarrow> index \<Rightarrow> importer list \<Rightarrow> importer list \<times> exn option" where
  "add_existing_events_importers b protocol idx =
     for_each (existing_events_step b protocol) (session_indexes idx)"

text \<open>
  Lines 225 to 246: the keyword arguments of the handle for the next session of
  one subject and one value of the loop variable \<^verbatim>\<open>experiment\<close>.
\<close>

definition future_events_kwargs ::
  "string \<Rightarrow> index \<Rightarrow> string \<Rightarrow> string \<Rightarrow> string \<Rightarrow> exn + kwargs" where
  "future_events_kwargs protocol subj_index subj max_montage experiment =
     (let exp_index = filtered (\<lambda>q. q\<lparr>q_montage := Some max_montage,
                                         q_experiment := Some experiment\<rparr>) subj_index;
          sess = sessions exp_index;
          (session, original_session, original_experiment) =
            (case sess of
               s0 # rest \<Rightarrow>
                 let max_session = fold max rest s0
                 in (max_session + 1,
                     (case get_value_int exp_index ''original_session''
                             (\<lambda>q. q\<lparr>q_session := Some max_session\<rparr>) of
                        Inr v \<Rightarrow> v + 1 | Inl e \<Rightarrow> max_session + 1),
                     (case get_value_str exp_index ''original_experiment''
                             (\<lambda>q. q\<lparr>q_session := Some max_session\<rparr>) of
                        Inr v \<Rightarrow> v | Inl e \<Rightarrow> experiment))
             | [] \<Rightarrow> (0, 0, experiment));
          do_math = (experiment \<in> set MATH_TASKS)
      in (case item (split_on CHR ''.'' max_montage) 1 of
            Inl e \<Rightarrow> Inl e
          | Inr num \<Rightarrow>
              (case get_value_str subj_index ''subject_alias'' (\<lambda>q. q\<lparr>q_montage := Some num\<rparr>) of
                 Inl e \<Rightarrow> Inl e
               | Inr code \<Rightarrow>
                   Inr [(''subject'', PStr subj), (''montage'', PStr max_montage),
                        (''experiment'', PStr original_experiment), (''session'', PInt session),
                        (''new_experiment'', PStr experiment),
                        (''original_session'', PInt original_session),
                        (''do_math'', PBool do_math), (''protocol'', PStr protocol),
                        (''code'', PStr code), (''do_compare'', PBool False)])))"

definition future_events_step ::
  "builders \<Rightarrow> string \<Rightarrow> index \<Rightarrow> string \<Rightarrow> string \<Rightarrow> string \<Rightarrow> importer list
     \<Rightarrow> importer list \<times> exn option" where
  "future_events_step b protocol subj_index subj max_montage experiment importers =
     (case future_events_kwargs protocol subj_index subj max_montage experiment of
        Inl e \<Rightarrow> (importers, Some e)
      | Inr kw \<Rightarrow>
          (case Importer_init b BUILD_EVENTS [] kw of
             Inl e \<Rightarrow> (importers, Some e)
           | Inr importer0 \<Rightarrow>
               let (c, importer) = check importer0
               in if c then (importers @ [importer], None) else (importers, None)))"

text \<open>
  The inner loop is \<^verbatim>\<open>for experiment in self.EXPERIMENTS\<close>: it iterates the
  dictionary, that is, its keys.
\<close>

definition add_future_events_importers ::
  "builders \<Rightarrow> string \<Rightarrow> index \<Rightarrow> importer list \<Rightarrow> importer list \<times> exn option" where
  "add_future_events_importers b protocol idx =
     for_each
       (\<lambda>subj importers.
          let subj_index = filtered (\<lambda>q. q\<lparr>q_subject := Some subj\<rparr>) idx
          in (case py_max (montages subj_index id) of
                Inl e \<Rightarrow> (importers, Some e)
              | Inr max_montage \<Rightarrow>
                  for_each (future_events_step b protocol subj_index subj max_montage)
                    (map fst EXPERIMENTS) importers))
       (subjects idx)"

text \<open>Sequencing of two phases: the second runs only if the first did not raise.\<close>

definition and_then ::
  "('s \<Rightarrow> 's \<times> exn option) \<Rightarrow> ('s \<Rightarrow> 's \<times> exn option) \<Rightarrow> 's \<Rightarrow> 's \<times> exn option" where
  "and_then f g s = (case f s of (s', None) \<Rightarrow> g s' | (s', Some e) \<Rightarrow> (s', Some e))"

definition populate_importers ::
  "builders \<Rightarrow> string \<Rightarrow> index \<Rightarrow> importer list \<Rightarrow> importer list \<times> exn option" where
  "populate_importers b protocol idx =
     and_then (add_existing_events_importers b protocol idx)
       (and_then (add_existing_montage_importers b protocol idx)
          (add_future_events_importers b protocol idx))"

definition run_all_imports :: "importer list \<Rightarrow> importer list" where
  "run_all_imports importers = map run importers"

text \<open>
  \<^verbatim>\<open>sorted_importers()\<close> sorts by the list of the six attributes read from
  \<^verbatim>\<open>__dict__\<close> (so \<^verbatim>\<open>_should_transfer\<close> is read as stored, the property is not
  called). Python 2 compares the lists lexicographically; within one position
  False is below True, None is below both, and for the subject None is below
  numbers (a boolean counting as 0 or 1), which are below strings. \<open>py_rank\<close>
  maps a value to a triple whose lexicographic order is that order. Python's
  \<^verbatim>\<open>sorted\<close> is stable, as \<open>sort_key\<close> is.
\<close>

fun py_rank :: "pyval \<Rightarrow> nat \<times> int \<times> string" where
  "py_rank PNone = (0, 0, [])"
| "py_rank (PBool v) = (1, (if v then 1 else 0), [])"
| "py_rank (PInt n) = (1, n, [])"
| "py_rank (PStr s) = (2, 0, s)"

type_synonym order_key = "bool \<times> bool \<times> bool option \<times> bool \<times> bool \<times> nat \<times> int \<times> string"

definition order_key :: "importer \<Rightarrow> order_key" where
  "order_key imp =
     (initialized imp, errored imp, priv_should_transfer imp, transferred imp, processed imp,
      py_rank (subject imp))"

definition sorted_importers :: "importer list \<Rightarrow> importer list" where
  "sorted_importers importers = sort_key order_key importers"

section \<open>Concrete collaborators, handles and indexes\<close>

text \<open>
  A pipeline with given answers, builders that return given results, and a
  small index: one subject with one montage and one recorded session of FR1.
\<close>

definition ex_pipeline :: "(nat \<Rightarrow> exn + bool) \<Rightarrow> (nat \<Rightarrow> exn option) \<Rightarrow> pipeline_state" where
  "ex_pipeline chk rn =
     \<lparr>transferer = \<lparr>check_checksums_outcome = chk, check_checksums_calls = 0\<rparr>,
      run_outcome = rn, run_calls = 0\<rparr>"

definition ex_builders ::
  "(exn + pipeline_state) \<Rightarrow> (exn + pipeline_state) \<Rightarrow> (exn + pipeline_state) \<Rightarrow> builders" where
  "ex_builders mo ev cv =
     \<lparr>build_import_montage_pipeline = (\<lambda>as kw. mo),
      build_events_pipeline = (\<lambda>as kw. ev),
      build_split_pipeline = (\<lambda>as kw. Inl (Exception ''no ephys'')),
      build_convert_events_pipeline = (\<lambda>as kw. cv),
      build_convert_eeg_pipeline = (\<lambda>as kw. Inl (Exception ''no ephys''))\<rparr>"

definition ex_kwargs :: kwargs where
  "ex_kwargs = [(''subject'', PStr ''R1001P''), (''protocol'', PStr ''r1'')]"

definition ex_importer :: "(exn + pipeline_state) \<Rightarrow> importer" where
  "ex_importer ev = projr (Importer_init (ex_builders ev ev ev) BUILD_EVENTS [] ex_kwargs)"

definition ex_index :: "int list \<Rightarrow> int option \<Rightarrow> index" where
  "ex_index sess orig =
     \<lparr>experiments_of = (\<lambda>q. [''FR1'']),
      subjects_of = (\<lambda>q. [''R1001P'']),
      sessions_of = (\<lambda>q. sess),
      montages_of = (\<lambda>q. [''0.0'']),
      int_value_of = (\<lambda>name q. if name = ''original_session'' then orig else None),
      str_value_of = (\<lambda>name q. if name = ''subject_alias'' then Some ''R1001P'' else None),
      fixed = \<lparr>q_experiment = None, q_subject = None, q_session = None, q_montage = None\<rparr>\<rparr>"

text \<open>
  The view of that index for its one session, the keyword arguments the
  existing-session phase builds for it, and those the future-session phase builds
  for the next session of FR1.
\<close>

definition ex_session_index :: index where
  "ex_session_index =
     (ex_index [0] None)\<lparr>fixed := \<lparr>q_experiment = Some ''FR1'', q_subject = Some ''R1001P'',
                                   q_session = Some 0, q_montage = None\<rparr>\<rparr>"

definition ex_event_kwargs :: kwargs where
  "ex_event_kwargs =
     [(''subject'', PStr ''R1001P''), (''montage'', PStr ''0.0''),
      (''experiment'', PStr ''FR1''), (''session'', PInt 0),
      (''new_experiment'', PStr ''FR1''), (''original_session'', PInt 0),
      (''do_math'', PBool True), (''protocol'', PStr ''r1''),
      (''code'', PStr ''R1001P''), (''do_compare'', PBool True)]"

definition ex_future_kwargs :: "int list \<Rightarrow> int option \<Rightarrow> kwargs" where
  "ex_future_kwargs sess orig =
     projr (future_events_kwargs ''r1'' (ex_index sess orig) ''R1001P'' ''0.0'' ''FR1'')"

text \<open>
  An index that answers by experiment (FR1 has the sessions 0, 1 and 2, no other
  experiment has any), a handle after one \<^verbatim>\<open>check()\<close> with a given answer, and builders whose
  montage and events pipelines need a transfer while the legacy conversion has
  nothing to build from.
\<close>

definition ex_fr1_index :: index where
  "ex_fr1_index =
     \<lparr>experiments_of = (\<lambda>q. [''FR1'']),
      subjects_of = (\<lambda>q. [''R1001P'']),
      sessions_of = (\<lambda>q. if q_experiment q = Some ''FR1'' then [0, 1, 2] else []),
      montages_of = (\<lambda>q. [''0.0'']),
      int_value_of = (\<lambda>name q. None),
      str_value_of = (\<lambda>name q. if name = ''subject_alias'' then Some ''R1001P'' else None),
      fixed = \<lparr>q_experiment = None, q_subject = None, q_session = None, q_montage = None\<rparr>\<rparr>"

definition ex_checked :: "exn + bool \<Rightarrow> importer" where
  "ex_checked r = snd (check (ex_importer (Inr (ex_pipeline (\<lambda>n. r) (\<lambda>n. None)))))"

definition ex_ok_builders :: builders where
  "ex_ok_builders =
     ex_builders (Inr (ex_pipeline (\<lambda>n. Inr True) (\<lambda>n. None)))
       (Inr (ex_pipeline (\<lambda>n. Inr True) (\<lambda>n. None))) (Inl (Exception ''no legacy events''))"

section \<open>Evaluation and case rules\<close>

lemmas kind_defs = MONTAGE_def BUILD_EVENTS_def BUILD_EPHYS_def CONVERT_EVENTS_def CONVERT_EPHYS_def

lemmas ex_defs = ex_pipeline_def ex_builders_def ex_kwargs_def ex_importer_def ex_index_def

lemmas obs_defs = check_calls_def run_calls_of_def check_outcome_at_def run_outcome_at_def

lemma Importer_init_cases:
  assumes "Importer_init b type as kw = Inr h"
  obtains (built) build subj p where
      "PIPELINE_BUILDERS b type = Some build" "map_of kw ''subject'' = Some subj"
      "build as kw = Inr p"
      "h = \<lparr>label = the (LABELS type), args = as, kwargs = kw, subject = subj,
            errors = (\<lambda>k. None), priv_should_transfer = None,
            errored = False, processed = False, transferred = False,
            pipeline = Some p, initialized = True\<rparr>"
  | (failed) build subj e where
      "PIPELINE_BUILDERS b type = Some build" "map_of kw ''subject'' = Some subj"
      "build as kw = Inl e"
      "h = \<lparr>label = the (LABELS type), args = as, kwargs = kw, subject = subj,
            errors = (\<lambda>k. None)(Init := Some e), priv_should_transfer = None,
            errored = True, processed = False, transferred = False,
            pipeline = None, initialized = False\<rparr>"
  using assms
  by (auto simp: Importer_init_def LABELS_def set_error_def Let_def split: option.splits sum.splits)

lemma exec_append: "exec (xs @ ys) h = exec ys (exec xs h)"
  by (induction xs arbitrary: h) simp_all

lemma exec_snoc: "exec (xs @ [x]) h = apply_op x (exec xs h)"
  by (simp add: exec_append)

lemma check_None:
  "pipeline h = None \<Longrightarrow>
     check h = (False, h\<lparr>errors := (errors h)(Check := Some (AttributeError ''check_checksums'')),
                         errored := True, priv_should_transfer := Some False\<rparr>)"
  by (simp add: check_def set_error_def)

lemma check_Some:
  "pipeline h = Some p \<Longrightarrow>
     check h =
       (case check_checksums_outcome (transferer p) (check_checksums_calls (transferer p)) of
          Inr v \<Rightarrow>
            (v, h\<lparr>pipeline := Some (p\<lparr>transferer := (transferer p)
                      \<lparr>check_checksums_calls := Suc (check_checksums_calls (transferer p))\<rparr>\<rparr>),
                   priv_should_transfer := Some v\<rparr>)
        | Inl e \<Rightarrow>
            (False, h\<lparr>pipeline := Some (p\<lparr>transferer := (transferer p)
                      \<lparr>check_checksums_calls := Suc (check_checksums_calls (transferer p))\<rparr>\<rparr>),
                   errors := (errors h)(Check := Some e), errored := True,
                   priv_should_transfer := Some False\<rparr>))"
  by (simp add: check_def set_error_def Let_def split: sum.splits)

lemma run_None:
  "pipeline h = None \<Longrightarrow>
     run h = h\<lparr>errors := (errors h)(Processing := Some (AttributeError ''run'')), errored := True\<rparr>"
  by (simp add: run_def set_error_def)

lemma run_Some:
  "pipeline h = Some p \<Longrightarrow>
     run h =
       (case run_outcome p (run_calls p) of
          None \<Rightarrow> h\<lparr>pipeline := Some (p\<lparr>run_calls := Suc (run_calls p)\<rparr>),
                    processed := True, transferred := True\<rparr>
        | Some e \<Rightarrow>
            h\<lparr>pipeline := Some (p\<lparr>run_calls := Suc (run_calls p)\<rparr>),
              errors := (errors h)((if is_UnTransferrableException e then Transfer else Processing)
                                     := Some e),
              errored := True\<rparr>)"
  by (simp add: run_def set_error_def Let_def split: option.splits)

lemma should_transfer_cases:
  "should_transfer h = (priv_should_transfer h, h) \<or>
   (initialized h \<and> priv_should_transfer h = None \<and>
    should_transfer h = (Some (fst (check h)), snd (check h)))"
  by (cases "pipeline h")
     (auto simp: should_transfer_def check_None check_Some Let_def split: sum.splits prod.splits)

lemma apply_op_cases:
  "apply_op x h = h \<or> apply_op x h = snd (check h) \<or> apply_op x h = run h"
  using should_transfer_cases [of h] by (cases x) auto

lemma exec_induct:
  assumes "P h0"
    and "\<And>h. P h \<Longrightarrow> P (snd (check h))"
    and "\<And>h. P h \<Longrightarrow> P (run h)"
  shows "P (exec ops h0)"
  using assms(1)
proof (induction ops arbitrary: h0)
  case Nil
  then show ?case by simp
next
  case (Cons x xs)
  have "P (apply_op x h0)"
    using apply_op_cases [of x h0] Cons.prems assms(2,3) by auto
  then show ?case using Cons.IH by simp
qed

lemma shape_inv_step_check: "shape_inv h0 h \<Longrightarrow> shape_inv h0 (snd (check h))"
  by (cases "pipeline h")
     (auto simp: shape_inv_def check_None check_Some obs_defs fun_eq_iff split: sum.splits)

lemma shape_inv_step_run: "shape_inv h0 h \<Longrightarrow> shape_inv h0 (run h)"
  by (cases "pipeline h")
     (auto simp: shape_inv_def run_None run_Some obs_defs fun_eq_iff split: option.splits)

lemma shape_inv_exec: "shape_inv h0 (exec ops h0)"
  by (rule exec_induct [where P = "shape_inv h0"])
     (simp_all add: shape_inv_def [of h0 h0] shape_inv_step_check shape_inv_step_run)

lemma run_seen_step:
  assumes "run_calls_of h0 \<le> run_calls_of h" "run_calls_of h' = Suc (run_calls_of h)"
  shows "run_seen h0 h' Q \<longleftrightarrow> run_seen h0 h Q \<or> Q (run_outcome_at h0 (run_calls_of h))"
  using assms by (auto simp: run_seen_def atLeastLessThanSuc)

lemma run_seen_same:
  "run_calls_of h' = run_calls_of h \<Longrightarrow> run_seen h0 h' Q \<longleftrightarrow> run_seen h0 h Q"
  by (simp add: run_seen_def)

lemma check_seen_step:
  assumes "check_calls h0 \<le> check_calls h" "check_calls h' = Suc (check_calls h)"
  shows "check_seen h0 h' Q \<longleftrightarrow> check_seen h0 h Q \<or> Q (check_outcome_at h0 (check_calls h))"
  using assms by (auto simp: check_seen_def atLeastLessThanSuc)

lemma check_seen_same:
  "check_calls h' = check_calls h \<Longrightarrow> check_seen h0 h' Q \<longleftrightarrow> check_seen h0 h Q"
  by (simp add: check_seen_def)

lemma check_inv_check:
  assumes "shape_inv h0 h" "check_inv h0 h"
  shows "check_inv h0 (snd (check h))"
proof (cases "pipeline h")
  case None
  with assms show ?thesis
    by (auto simp: check_inv_def shape_inv_def check_None)
next
  case (Some p)
  let ?c = "check_checksums_calls (transferer p)"
  let ?h' = "snd (check h)"
  have out: "check_outcome_at h0 ?c = check_checksums_outcome (transferer p) ?c"
    using assms(1) Some by (auto simp: shape_inv_def obs_defs fun_eq_iff)
  have c: "check_calls h = ?c" "check_calls h0 \<le> check_calls h" "pipeline h0 \<noteq> None"
    using assms(1) Some by (auto simp: shape_inv_def obs_defs)
  have c': "check_calls ?h' = Suc (check_calls h)"
    using Some by (simp add: check_Some check_calls_def split: sum.splits)
  note step = check_seen_step [OF c(2) c', of isl]
  show ?thesis
  proof (cases "check_checksums_outcome (transferer p) ?c")
    case (Inl e)
    then show ?thesis
      using Some c out unfolding check_inv_def step c'
      by (simp add: check_Some)
  next
    case (Inr v)
    then show ?thesis
      using Some c out assms(2) unfolding check_inv_def step c'
      by (auto simp: check_Some)
  qed
qed

lemma run_frame:
  "check_calls (run h) = check_calls h"
  "errors (run h) Check = errors h Check"
  "errors (run h) Init = errors h Init"
  "priv_should_transfer (run h) = priv_should_transfer h"
  by (cases "pipeline h"; simp add: run_None run_Some check_calls_def split: option.splits)+

lemma check_frame:
  "run_calls_of (snd (check h)) = run_calls_of h"
  "errors (snd (check h)) Transfer = errors h Transfer"
  "errors (snd (check h)) Processing = errors h Processing"
  "errors (snd (check h)) Init = errors h Init"
  "processed (snd (check h)) = processed h"
  "transferred (snd (check h)) = transferred h"
  by (cases "pipeline h"; simp add: check_None check_Some run_calls_of_def split: sum.splits)+

lemma check_inv_run:
  assumes "shape_inv h0 h" "check_inv h0 h"
  shows "check_inv h0 (run h)"
  using assms(2) unfolding check_inv_def
  by (simp add: run_frame check_seen_same [OF run_frame(1)])

lemma run_inv_check:
  assumes "shape_inv h0 h" "run_inv h0 h"
  shows "run_inv h0 (snd (check h))"
  using assms(2) unfolding run_inv_def
  by (auto simp: check_frame run_seen_same [OF check_frame(1)])

lemma run_inv_run:
  assumes "shape_inv h0 h" "run_inv h0 h"
  shows "run_inv h0 (run h)"
proof (cases "pipeline h")
  case None
  with assms show ?thesis
    by (auto simp: run_inv_def shape_inv_def run_None)
next
  case (Some p)
  let ?r = "run_calls p"
  have out: "run_outcome_at h0 ?r = run_outcome p ?r"
    using assms(1) Some by (auto simp: shape_inv_def obs_defs fun_eq_iff)
  have r: "run_calls_of h = ?r" "run_calls_of h0 \<le> run_calls_of h" "pipeline h0 \<noteq> None"
    using assms(1) Some by (auto simp: shape_inv_def obs_defs)
  have r': "run_calls_of (run h) = Suc (run_calls_of h)"
    using Some by (simp add: run_Some run_calls_of_def split: option.splits)
  note step = run_seen_step [OF r(2) r']
  show ?thesis
  proof (cases "run_outcome p ?r")
    case None
    then show ?thesis
      using Some r out assms(2) unfolding run_inv_def step
      by (simp add: run_Some)
  next
    case (Some e)
    then show ?thesis
      using \<open>pipeline h = Some p\<close> r out assms(2) unfolding run_inv_def step
      by (auto simp: run_Some)
  qed
qed

lemma invariants_init:
  assumes "Importer_init b type as kw = Inr h0"
  shows "check_inv h0 h0" "run_inv h0 h0"
  using assms
  by (cases rule: Importer_init_cases;
      simp add: check_inv_def run_inv_def check_seen_def run_seen_def)+

lemma invariants_exec:
  assumes "Importer_init b type as kw = Inr h0"
  shows "shape_inv h0 (exec ops h0) \<and> check_inv h0 (exec ops h0) \<and> run_inv h0 (exec ops h0)"
proof (rule exec_induct [where P = "\<lambda>h. shape_inv h0 h \<and> check_inv h0 h \<and> run_inv h0 h"])
  show "shape_inv h0 h0 \<and> check_inv h0 h0 \<and> run_inv h0 h0"
    using invariants_init [OF assms] by (simp add: shape_inv_def)
next
  fix h assume "shape_inv h0 h \<and> check_inv h0 h \<and> run_inv h0 h"
  then show "shape_inv h0 (snd (check h)) \<and> check_inv h0 (snd (check h)) \<and> run_inv h0 (snd (check h))"
    by (simp add: check_inv_check run_inv_check shape_inv_step_check)
next
  fix h assume "shape_inv h0 h \<and> check_inv h0 h \<and> run_inv h0 h"
  then show "shape_inv h0 (run h) \<and> check_inv h0 (run h) \<and> run_inv h0 (run h)"
    by (simp add: check_inv_run run_inv_run shape_inv_step_run)
qed

lemma ex_importer_Inr:
  "Importer_init (ex_builders ev ev ev) BUILD_EVENTS [] ex_kwargs = Inr (ex_importer ev)"
  by (cases ev)
     (simp_all add: ex_defs Importer_init_def LABELS_def PIPELINE_BUILDERS_def kind_defs set_error_def)

lemma ex_importer_built:
  "ex_importer (Inr p) =
     \<lparr>label = ''Events Builder'', args = [], kwargs = ex_kwargs, subject = PStr ''R1001P'',
      errors = (\<lambda>k. None), priv_should_transfer = None,
      errored = False, processed = False, transferred = False,
      pipeline = Some p, initialized = True\<rparr>"
  by (simp add: ex_defs Importer_init_def PIPELINE_BUILDERS_def LABELS_def kind_defs)

lemma ex_importer_failed:
  "ex_importer (Inl e) =
     \<lparr>label = ''Events Builder'', args = [], kwargs = ex_kwargs, subject = PStr ''R1001P'',
      errors = (\<lambda>k. None)(Init := Some e), priv_should_transfer = None,
      errored = True, processed = False, transferred = False,
      pipeline = None, initialized = False\<rparr>"
  by (simp add: ex_defs Importer_init_def PIPELINE_BUILDERS_def LABELS_def kind_defs set_error_def)

lemma errored_exec:
  assumes "errored h0" shows "errored (exec ops h0)"
proof (rule exec_induct [where P = "\<lambda>h. errored h"])
  show "errored h0" by (rule assms)
next
  fix h :: importer assume "errored h"
  then show "errored (snd (check h))"
    by (cases "pipeline h") (simp_all add: check_None check_Some split: sum.splits)
next
  fix h :: importer assume "errored h"
  then show "errored (run h)"
    by (cases "pipeline h") (simp_all add: run_None run_Some split: option.splits)
qed

lemma check_slot_persists:
  assumes "errors h Check \<noteq> None" shows "errors (exec ops h) Check \<noteq> None"
proof (rule exec_induct [where P = "\<lambda>h. errors h Check \<noteq> None"])
  show "errors h Check \<noteq> None" by (rule assms)
next
  fix g :: importer assume "errors g Check \<noteq> None"
  then show "errors (snd (check g)) Check \<noteq> None"
    by (cases "pipeline g") (simp_all add: check_None check_Some split: sum.splits)
next
  fix g :: importer assume "errors g Check \<noteq> None"
  then show "errors (run g) Check \<noteq> None"
    by (simp add: run_frame)
qed






section \<open>The handle: run\<close>

text \<open>
  Claim C2. On a handle as \<open>Importer_init\<close> returns it with \<open>initialized\<close> true,
  \<^verbatim>\<open>run()\<close> has one of three outcomes, decided by what the pipeline's run does:
  if it returns, \<open>processed\<close> and \<open>transferred\<close> are true and the transfer and
  processing slots are None (no slot is set at all); if it raises
  UnTransferrableException, both flags stay false and exactly the transfer slot
  holds the exception; if it raises anything else, both flags stay false and
  exactly the processing slot holds it.
\<close>

theorem run_fresh_outcomes:
  assumes "Importer_init b type as kw = Inr h" and "initialized h"
  shows "\<exists>p. pipeline h = Some p \<and>
           (case run_outcome p (run_calls p) of
              None \<Rightarrow>
                processed (run h) \<and> transferred (run h) \<and> \<not> errored (run h) \<and>
                errors (run h) Transfer = None \<and> errors (run h) Processing = None
            | Some e \<Rightarrow>
                \<not> processed (run h) \<and> \<not> transferred (run h) \<and> errored (run h) \<and>
                errors (run h) =
                  (\<lambda>k. None)((if is_UnTransferrableException e then Transfer else Processing)
                               := Some e))"
  using assms
  by (cases rule: Importer_init_cases) (auto simp: run_Some split: option.splits)

theorem run_fresh_outcomes_witness:
  "initialized (ex_importer (Inr (ex_pipeline (\<lambda>n. Inr True)
      (\<lambda>n. Some (UnTransferrableException ''superseded''))))) \<and>
   \<not> processed (run (ex_importer (Inr (ex_pipeline (\<lambda>n. Inr True)
      (\<lambda>n. Some (UnTransferrableException ''superseded'')))))) \<and>
   errors (run (ex_importer (Inr (ex_pipeline (\<lambda>n. Inr True)
      (\<lambda>n. Some (UnTransferrableException ''superseded'')))))) =
     (\<lambda>k. None)(Transfer := Some (UnTransferrableException ''superseded''))"
  using run_fresh_outcomes [OF ex_importer_Inr,
      of "Inr (ex_pipeline (\<lambda>n. Inr True) (\<lambda>n. Some (UnTransferrableException ''superseded'')))"]
  by (simp add: ex_importer_built ex_pipeline_def)

text \<open>
  Claim C3 as stated (run is a no-op on a handle with \<open>initialized\<close> false) does
  not hold: \<^verbatim>\<open>run()\<close> does not test \<open>initialized\<close>, the call on the missing
  pipeline raises AttributeError and the handler stores it in the processing slot.
\<close>

theorem run_uninitialized_counterexample:
  "\<not> initialized (ex_importer (Inl (Exception ''no source''))) \<and>
   errors (ex_importer (Inl (Exception ''no source''))) Processing = None \<and>
   errors (run (ex_importer (Inl (Exception ''no source'')))) Processing =
     Some (AttributeError ''run'') \<and>
   run (ex_importer (Inl (Exception ''no source''))) \<noteq> ex_importer (Inl (Exception ''no source''))"
proof -
  let ?h = "ex_importer (Inl (Exception ''no source''))"
  have a: "\<not> initialized ?h" "errors ?h Processing = None"
    "errors (run ?h) Processing = Some (AttributeError ''run'')"
    by (simp_all add: ex_importer_failed run_None)
  then have "errors (run ?h) Processing \<noteq> errors ?h Processing" by simp
  then have "run ?h \<noteq> ?h" by metis
  with a show ?thesis by simp
qed

text \<open>
  Claim C3, amended. On every reachable handle with \<open>initialized\<close> false,
  \<^verbatim>\<open>run()\<close> changes exactly one thing: the processing slot receives the
  AttributeError raised by the call on the missing pipeline. \<open>errored\<close> (already
  true since construction), \<open>processed\<close>, \<open>transferred\<close>, the memoized
  \<^verbatim>\<open>_should_transfer\<close> and the other three slots are unchanged.
\<close>

theorem run_uninitialized_sets_processing:
  assumes "Importer_init b type as kw = Inr h0" and "h = exec ops h0" and "\<not> initialized h"
  shows "run h = h\<lparr>errors := (errors h)(Processing := Some (AttributeError ''run''))\<rparr> \<and>
         errored (run h) = errored h \<and> processed (run h) = processed h \<and>
         transferred (run h) = transferred h \<and>
         priv_should_transfer (run h) = priv_should_transfer h"
proof -
  have s: "shape_inv h0 h" using assms(2) by (simp add: shape_inv_exec)
  then have ni: "\<not> initialized h0" using assms(3) by (simp add: shape_inv_def)
  with assms(1) have "pipeline h0 = None \<and> errored h0"
    by (cases rule: Importer_init_cases) simp_all
  then have "pipeline h = None" "errored h"
    using s assms(2) by (simp_all add: shape_inv_def errored_exec)
  then show ?thesis by (simp add: run_None)
qed

theorem run_uninitialized_sets_processing_witness:
  "\<not> initialized (exec [OpCheck] (ex_importer (Inl (Exception ''no source'')))) \<and>
   errors (run (exec [OpCheck] (ex_importer (Inl (Exception ''no source''))))) Processing =
     Some (AttributeError ''run'') \<and>
   \<not> processed (run (exec [OpCheck] (ex_importer (Inl (Exception ''no source'')))))"
  using run_uninitialized_sets_processing [OF ex_importer_Inr refl,
      of "[OpCheck]" "Inl (Exception ''no source'')"]
  by (simp add: ex_importer_failed check_None)

section \<open>The handle: the property should_transfer\<close>

text \<open>
  Claim C10. On a handle whose construction failed (\<open>initialized\<close> false), any
  number of reads of the property \<^verbatim>\<open>should_transfer\<close> return None each time
  and leave the handle as it was: \<^verbatim>\<open>check()\<close> is not called, no slot is
  written, \<open>errored\<close> does not change, and the stored value stays None.
\<close>

theorem should_transfer_uninitialized:
  assumes "Importer_init b type as kw = Inr h" and "\<not> initialized h"
  shows "reads n h = (replicate n None, h) \<and> priv_should_transfer h = None \<and>
         check_calls h = 0"
proof -
  have p: "priv_should_transfer h = None" "pipeline h = None"
    using assms by (cases rule: Importer_init_cases; simp)+
  have "reads n h = (replicate n None, h)"
    using assms(2) p(1) by (induction n) (simp_all add: should_transfer_def)
  with p show ?thesis by (simp add: check_calls_def)
qed

theorem should_transfer_uninitialized_witness:
  "\<not> initialized (ex_importer (Inl (Exception ''no source''))) \<and>
   reads 3 (ex_importer (Inl (Exception ''no source''))) =
     ([None, None, None], ex_importer (Inl (Exception ''no source'')))"
  using should_transfer_uninitialized [OF ex_importer_Inr, of "Inl (Exception ''no source'')" 3]
  by (simp add: ex_importer_failed numeral_3_eq_3)



section \<open>The handle: invariants of the reachable states\<close>

text \<open>
  Claim C4 as stated does not hold in its second half: the check slot is never
  cleared, so a failed \<^verbatim>\<open>check()\<close> followed by a \<^verbatim>\<open>check()\<close> that answers
  True leaves \<^verbatim>\<open>_should_transfer\<close> True next to a non-null check slot.
\<close>

theorem check_recheck_counterexample:
  "priv_should_transfer (exec [OpCheck, OpCheck]
     (ex_importer (Inr (ex_pipeline
        (\<lambda>n. if n = 0 then Inl (Exception ''unreadable'') else Inr True) (\<lambda>n. None))))) = Some True \<and>
   errors (exec [OpCheck, OpCheck]
     (ex_importer (Inr (ex_pipeline
        (\<lambda>n. if n = 0 then Inl (Exception ''unreadable'') else Inr True) (\<lambda>n. None))))) Check
     = Some (Exception ''unreadable'')"
  by (simp add: ex_importer_built check_Some ex_pipeline_def)

text \<open>
  Claim C4, amended. In every reachable state: if the next \<^verbatim>\<open>check()\<close> fails
  (the transferer raises, or there is no transferer), then after it the returned
  and the stored value are False, \<open>errored\<close> is true and the check slot is
  non-null. The check slot is never cleared: once non-null it stays non-null
  under every further sequence of calls. So on an initialized handle
  \<^verbatim>\<open>_should_transfer\<close> True coexists with a non-null check slot exactly when
  some \<^verbatim>\<open>check()\<close> made so far failed and the most recent one answered True;
  on a handle that failed to initialize \<^verbatim>\<open>_should_transfer\<close> is never True.
\<close>

theorem check_failure_invariant:
  assumes "Importer_init b type as kw = Inr h0" and "h = exec ops h0"
  shows "(isl (check_outcome_at h (check_calls h)) \<longrightarrow>
            fst (check h) = False \<and> priv_should_transfer (snd (check h)) = Some False \<and>
            errored (snd (check h)) \<and> errors (snd (check h)) Check \<noteq> None) \<and>
         (errors h Check \<noteq> None \<longrightarrow> errors (exec later h) Check \<noteq> None) \<and>
         (initialized h0 \<longrightarrow>
            (priv_should_transfer h = Some True \<and> errors h Check \<noteq> None \<longleftrightarrow>
               check_calls h0 < check_calls h \<and>
               check_outcome_at h0 (check_calls h - 1) = Inr True \<and>
               check_seen h0 h isl)) \<and>
         (\<not> initialized h0 \<longrightarrow> priv_should_transfer h \<noteq> Some True)"
proof -
  have inv: "shape_inv h0 h" "check_inv h0 h"
    using invariants_exec [OF assms(1), of ops] assms(2) by simp_all
  have p: "initialized h0 \<longleftrightarrow> pipeline h0 \<noteq> None"
    using assms(1) by (cases rule: Importer_init_cases) simp_all
  have first: "isl (check_outcome_at h (check_calls h)) \<longrightarrow>
            fst (check h) = False \<and> priv_should_transfer (snd (check h)) = Some False \<and>
            errored (snd (check h)) \<and> errors (snd (check h)) Check \<noteq> None"
    by (cases "pipeline h")
       (auto simp: check_None check_Some obs_defs split: sum.splits)
  have keeps: "errors h Check \<noteq> None \<longrightarrow> errors (exec later h) Check \<noteq> None"
    using check_slot_persists [of h later] by blast
  have third: "priv_should_transfer h = Some True \<and> errors h Check \<noteq> None \<longleftrightarrow>
               check_calls h0 < check_calls h \<and>
               check_outcome_at h0 (check_calls h - 1) = Inr True \<and>
               check_seen h0 h isl"
    if i: "initialized h0"
  proof -
    have c: "check_calls h0 \<le> check_calls h"
      using inv(1) by (simp add: shape_inv_def)
    have e: "errors h Check \<noteq> None \<longleftrightarrow> check_seen h0 h isl"
      and n: "check_calls h = check_calls h0 \<longrightarrow> priv_should_transfer h = None"
      and l: "check_calls h0 < check_calls h \<longrightarrow>
           priv_should_transfer h =
             Some (case check_outcome_at h0 (check_calls h - 1) of
                     Inr v \<Rightarrow> v | Inl e \<Rightarrow> False)"
      using inv(2) i p unfolding check_inv_def by blast+
    show ?thesis
    proof (cases "check_calls h = check_calls h0")
      case True
      then show ?thesis using n by simp
    next
      case False
      then have "check_calls h0 < check_calls h" using c by simp
      then show ?thesis
        using l e by (cases "check_outcome_at h0 (check_calls h - 1)") auto
    qed
  qed
  have fourth: "priv_should_transfer h \<noteq> Some True" if "\<not> initialized h0"
    using inv(2) that p by (simp add: check_inv_def)
  show ?thesis using first keeps third fourth by blast
qed

theorem check_failure_invariant_witness:
  "isl (check_outcome_at (ex_importer (Inr (ex_pipeline
        (\<lambda>n. if n = 0 then Inl (Exception ''unreadable'') else Inr True) (\<lambda>n. None)))) 0) \<and>
   priv_should_transfer (snd (check (ex_importer (Inr (ex_pipeline
        (\<lambda>n. if n = 0 then Inl (Exception ''unreadable'') else Inr True) (\<lambda>n. None)))))) = Some False \<and>
   errored (snd (check (ex_importer (Inr (ex_pipeline
        (\<lambda>n. if n = 0 then Inl (Exception ''unreadable'') else Inr True) (\<lambda>n. None)))))) \<and>
   priv_should_transfer (exec [OpCheck, OpCheck] (ex_importer (Inr (ex_pipeline
        (\<lambda>n. if n = 0 then Inl (Exception ''unreadable'') else Inr True) (\<lambda>n. None)))))
     = Some True \<and>
   errors (exec [OpCheck, OpCheck] (ex_importer (Inr (ex_pipeline
        (\<lambda>n. if n = 0 then Inl (Exception ''unreadable'') else Inr True) (\<lambda>n. None))))) Check
     \<noteq> None \<and>
   errors (exec [OpRun, OpRead] (exec [OpCheck, OpCheck] (ex_importer (Inr (ex_pipeline
        (\<lambda>n. if n = 0 then Inl (Exception ''unreadable'') else Inr True) (\<lambda>n. None)))))) Check
     \<noteq> None"
proof -
  let ?h = "ex_importer (Inr (ex_pipeline
        (\<lambda>n. if n = 0 then Inl (Exception ''unreadable'') else Inr True) (\<lambda>n. None)))"
  let ?g = "exec [OpCheck, OpCheck] ?h"
  have o: "isl (check_outcome_at ?h 0)" "check_calls ?h = 0" "initialized ?h"
    by (simp_all add: ex_importer_built obs_defs ex_pipeline_def)
  have r: "check_calls ?h < check_calls ?g"
    "check_outcome_at ?h (check_calls ?g - 1) = Inr True"
    "check_seen ?h ?g isl"
    by (simp_all add: ex_importer_built check_Some obs_defs check_seen_def ex_pipeline_def)
  have a: "priv_should_transfer (snd (check ?h)) = Some False \<and> errored (snd (check ?h))"
    using check_failure_invariant [OF ex_importer_Inr, of ?h "[]"] o by simp
  have b: "priv_should_transfer ?g = Some True \<and> errors ?g Check \<noteq> None"
    using check_failure_invariant [OF ex_importer_Inr refl, of "[OpCheck, OpCheck]"] o(3) r
    by blast
  have c: "errors (exec [OpRun, OpRead] ?g) Check \<noteq> None"
    using check_failure_invariant [OF ex_importer_Inr refl, of "[OpCheck, OpCheck]" _ "[OpRun, OpRead]"] b
    by blast
  show ?thesis using o(1) a b c by blast
qed

text \<open>
  Claim C6 as stated does not hold for the error slots: they are never cleared,
  so a \<^verbatim>\<open>run()\<close> that fails followed by one that succeeds leaves \<open>processed\<close>
  true next to a non-null processing slot.
\<close>

theorem processed_after_failure_counterexample:
  "processed (exec [OpRun, OpRun]
     (ex_importer (Inr (ex_pipeline (\<lambda>n. Inr True)
        (\<lambda>n. if n = 0 then Some (Exception ''disk full'') else None))))) \<and>
   errors (exec [OpRun, OpRun]
     (ex_importer (Inr (ex_pipeline (\<lambda>n. Inr True)
        (\<lambda>n. if n = 0 then Some (Exception ''disk full'') else None))))) Processing
     = Some (Exception ''disk full'')"
  by (simp add: ex_importer_built run_Some ex_pipeline_def)

text \<open>
  Claim C6, amended. In every reachable state \<open>processed\<close> true implies
  \<open>transferred\<close> true; and when \<open>processed\<close> is true, the transfer slot is None
  exactly when no \<^verbatim>\<open>run()\<close> made so far raised UnTransferrableException, and
  the processing slot is None exactly when none raised another exception.
\<close>

theorem processed_invariant:
  assumes "Importer_init b type as kw = Inr h0" and "h = exec ops h0"
  shows "(processed h \<longrightarrow> transferred h) \<and>
         (processed h \<longrightarrow>
            (errors h Transfer = None \<longleftrightarrow> \<not> run_seen h0 h raised_untransferrable) \<and>
            (errors h Processing = None \<longleftrightarrow> \<not> run_seen h0 h raised_other))"
proof -
  have inv: "run_inv h0 h"
    using invariants_exec [OF assms(1), of ops] assms(2) by simp
  then show ?thesis unfolding run_inv_def by (cases "pipeline h0") auto
qed

theorem processed_invariant_witness:
  "processed (exec [OpCheck, OpRun]
     (ex_importer (Inr (ex_pipeline (\<lambda>n. Inr True) (\<lambda>n. None))))) \<and>
   transferred (exec [OpCheck, OpRun]
     (ex_importer (Inr (ex_pipeline (\<lambda>n. Inr True) (\<lambda>n. None))))) \<and>
   errors (exec [OpCheck, OpRun]
     (ex_importer (Inr (ex_pipeline (\<lambda>n. Inr True) (\<lambda>n. None))))) Processing = None"
proof -
  let ?h = "ex_importer (Inr (ex_pipeline (\<lambda>n. Inr True) (\<lambda>n. None)))"
  have p: "processed (exec [OpCheck, OpRun] ?h)"
    by (simp add: ex_importer_built run_Some check_Some ex_pipeline_def)
  have n: "\<not> run_seen ?h (exec [OpCheck, OpRun] ?h) raised_other"
    by (simp add: run_seen_def ex_importer_built run_outcome_at_def ex_pipeline_def)
  show ?thesis
    using processed_invariant [OF ex_importer_Inr, of "exec [OpCheck, OpRun] ?h" "[OpCheck, OpRun]"] p n
    by simp
qed

section \<open>The orchestrator: the existing-session phase\<close>

lemma Importer_init_registered:
  assumes "type \<in> {MONTAGE, BUILD_EVENTS, BUILD_EPHYS, CONVERT_EVENTS, CONVERT_EPHYS}"
    and "map_of kw ''subject'' = Some subj"
  shows "\<exists>i. Importer_init b type as kw = Inr i \<and> kwargs i = kw \<and> subject i = subj \<and>
             label i = the (LABELS type)"
proof -
  obtain build lab where "PIPELINE_BUILDERS b type = Some build" "LABELS type = Some lab"
    using assms(1) by (auto simp: PIPELINE_BUILDERS_def LABELS_def kind_defs)
  then show ?thesis
    using assms(2)
    by (cases "build as kw") (simp_all add: Importer_init_def LABELS_def Let_def set_error_def)
qed

lemma existing_kwargs_subject:
  assumes "build_existing_event_importer_kwargs protocol subj experiment session sidx c = Inr kw"
  shows "map_of kw ''subject'' = Some (PStr subj)"
  using assms
  by (auto simp: build_existing_event_importer_kwargs_def Let_def split: sum.splits)

lemma ex_existing_kwargs:
  "build_existing_event_importer_kwargs ''r1'' ''R1001P'' ''FR1'' 0 ex_session_index True =
     Inr ex_event_kwargs"
  by (simp add: build_existing_event_importer_kwargs_def item_def montages_def
        get_value_str_def get_value_int_def ex_session_index_def ex_index_def MATH_TASKS_def
        ex_event_kwargs_def)

lemma ex_session_indexes:
  "session_indexes (ex_index [0] None) = [(''R1001P'', ''FR1'', 0, ex_session_index)]"
  by (simp add: session_indexes_def experiments_def subjects_def sessions_def filtered_def
        ex_index_def ex_session_index_def)

lemma existing_events_step_fallback:
  assumes "build_existing_event_importer_kwargs protocol subj experiment session sidx True = Inr kw"
  shows "\<exists>i1 i2.
           Importer_init b BUILD_EVENTS [] kw = Inr i1 \<and>
           Importer_init b CONVERT_EVENTS [] kw = Inr i2 \<and>
           kwargs i1 = kw \<and> kwargs i2 = kw \<and>
           existing_events_step b protocol (subj, experiment, session, sidx) importers =
             (importers @
                (let (c1, h1) = check i1; (c2, h2) = check i2
                 in if \<not> c1 \<and> \<not> errored h1 then []
                    else if \<not> errored h1 then [h1]
                    else if \<not> c2 \<and> \<not> errored h2 then []
                    else if \<not> errored h2 then [h2]
                    else [h1]),
              None)"
proof -
  have s: "map_of kw ''subject'' = Some (PStr subj)"
    using assms by (rule existing_kwargs_subject)
  obtain i1 where i1: "Importer_init b BUILD_EVENTS [] kw = Inr i1" "kwargs i1 = kw"
    using Importer_init_registered [OF _ s, of BUILD_EVENTS b "[]"] by auto
  obtain i2 where i2: "Importer_init b CONVERT_EVENTS [] kw = Inr i2" "kwargs i2 = kw"
    using Importer_init_registered [OF _ s, of CONVERT_EVENTS b "[]"] by auto
  have "existing_events_step b protocol (subj, experiment, session, sidx) importers =
             (importers @
                (let (c1, h1) = check i1; (c2, h2) = check i2
                 in if \<not> c1 \<and> \<not> errored h1 then []
                    else if \<not> errored h1 then [h1]
                    else if \<not> c2 \<and> \<not> errored h2 then []
                    else if \<not> errored h2 then [h2]
                    else [h1]),
              None)"
    using assms i1(1) i2(1)
    by (simp add: existing_events_step_def existing_events_cascade_def split: prod.splits)
  with i1 i2 show ?thesis by blast
qed

lemma for_each_all_ok:
  assumes "\<And>x s. x \<in> set xs \<Longrightarrow> body x s = (s @ r x, None)"
  shows "for_each body xs s = (s @ concat (map r xs), None)"
  using assms
proof (induction xs arbitrary: s)
  case Nil
  show ?case by simp
next
  case (Cons x xs)
  have "body x s = (s @ r x, None)" using Cons.prems by simp
  moreover have "for_each body xs (s @ r x) = ((s @ r x) @ concat (map r xs), None)"
    using Cons.prems by (intro Cons.IH) simp
  ultimately show ?case by simp
qed

lemma fallback_retained_flat:
  assumes "Importer_init b BUILD_EVENTS [] kw = Inr i1"
    and "Importer_init b CONVERT_EVENTS [] kw = Inr i2"
  shows "fallback_retained b kw =
           (let (c1, h1) = check i1; (c2, h2) = check i2
            in if \<not> c1 \<and> \<not> errored h1 then []
               else if \<not> errored h1 then [h1]
               else if \<not> c2 \<and> \<not> errored h2 then []
               else if \<not> errored h2 then [h2]
               else [h1])"
  using assms by (simp add: fallback_retained_def split: prod.splits)

text \<open>
  Claim C1. When the keyword arguments can be built for every session that the
  existing-session phase enumerates, the phase does not raise and appends, in
  the order of enumeration, for each (experiment, subject, session) exactly the
  handles of the fallback policy. For each enumerated session both handles are
  built from the same keyword arguments, and with \<open>h1\<close>, \<open>h2\<close> the BuildEvents
  and ConvertEvents handles after their \<^verbatim>\<open>check()\<close> the retained handles are:
  none if the BuildEvents check is negative and the handle error-free; else
  exactly \<open>h1\<close> if it is error-free; otherwise none if the ConvertEvents check
  is negative and that handle error-free, else exactly \<open>h2\<close> if it is
  error-free, else exactly \<open>h1\<close>.
\<close>

theorem existing_events_fallback:
  assumes "\<forall>t \<in> set (session_indexes idx). \<exists>kw. session_kwargs protocol t = Inr kw"
  shows "add_existing_events_importers b protocol idx importers =
           (importers @
              concat (map (\<lambda>t. fallback_retained b (projr (session_kwargs protocol t)))
                        (session_indexes idx)),
            None) \<and>
         (\<forall>t \<in> set (session_indexes idx). \<forall>kw. session_kwargs protocol t = Inr kw \<longrightarrow>
            (\<exists>i1 i2.
               Importer_init b BUILD_EVENTS [] kw = Inr i1 \<and>
               Importer_init b CONVERT_EVENTS [] kw = Inr i2 \<and>
               kwargs i1 = kw \<and> kwargs i2 = kw \<and>
               fallback_retained b kw =
                 (let (c1, h1) = check i1; (c2, h2) = check i2
                  in if \<not> c1 \<and> \<not> errored h1 then []
                     else if \<not> errored h1 then [h1]
                     else if \<not> c2 \<and> \<not> errored h2 then []
                     else if \<not> errored h2 then [h2]
                     else [h1])))"
proof -
  have step: "existing_events_step b protocol t s = (s @ fallback_retained b kw, None) \<and>
      (\<exists>i1 i2.
               Importer_init b BUILD_EVENTS [] kw = Inr i1 \<and>
               Importer_init b CONVERT_EVENTS [] kw = Inr i2 \<and>
               kwargs i1 = kw \<and> kwargs i2 = kw \<and>
               fallback_retained b kw =
                 (let (c1, h1) = check i1; (c2, h2) = check i2
                  in if \<not> c1 \<and> \<not> errored h1 then []
                     else if \<not> errored h1 then [h1]
                     else if \<not> c2 \<and> \<not> errored h2 then []
                     else if \<not> errored h2 then [h2]
                     else [h1]))"
    if k: "session_kwargs protocol t = Inr kw" for t kw s
  proof -
    obtain subj expt sess sidx where t: "t = (subj, expt, sess, sidx)"
      by (cases t) auto
    have k': "build_existing_event_importer_kwargs protocol subj expt sess sidx True
                = Inr kw"
      using k by (simp add: session_kwargs_def t)
    from existing_events_step_fallback [OF k', of b s]
    obtain i1 i2 where i:
      "Importer_init b BUILD_EVENTS [] kw = Inr i1"
      "Importer_init b CONVERT_EVENTS [] kw = Inr i2"
      "kwargs i1 = kw" "kwargs i2 = kw"
      and e: "existing_events_step b protocol (subj, expt, sess, sidx) s =
             (s @
                (let (c1, h1) = check i1; (c2, h2) = check i2
                 in if \<not> c1 \<and> \<not> errored h1 then []
                    else if \<not> errored h1 then [h1]
                    else if \<not> c2 \<and> \<not> errored h2 then []
                    else if \<not> errored h2 then [h2]
                    else [h1]),
              None)"
      by blast
    note f = fallback_retained_flat [OF i(1,2)]
    have e': "existing_events_step b protocol t s = (s @ fallback_retained b kw, None)"
      using e by (simp only: t f)
    have x: "\<exists>i1 i2.
               Importer_init b BUILD_EVENTS [] kw = Inr i1 \<and>
               Importer_init b CONVERT_EVENTS [] kw = Inr i2 \<and>
               kwargs i1 = kw \<and> kwargs i2 = kw \<and>
               fallback_retained b kw =
                 (let (c1, h1) = check i1; (c2, h2) = check i2
                  in if \<not> c1 \<and> \<not> errored h1 then []
                     else if \<not> errored h1 then [h1]
                     else if \<not> c2 \<and> \<not> errored h2 then []
                     else if \<not> errored h2 then [h2]
                     else [h1])"
      by (rule exI [of _ i1], rule exI [of _ i2]) (simp only: i f simp_thms)
    show ?thesis by (rule conjI [OF e' x])
  qed
  have phase: "add_existing_events_importers b protocol idx importers =
           (importers @
              concat (map (\<lambda>t. fallback_retained b (projr (session_kwargs protocol t)))
                        (session_indexes idx)),
            None)"
    unfolding add_existing_events_importers_def
  proof (rule for_each_all_ok)
    fix t s assume "t \<in> set (session_indexes idx)"
    then obtain kw where k: "session_kwargs protocol t = Inr kw" using assms by blast
    then show "existing_events_step b protocol t s =
                 (s @ fallback_retained b (projr (session_kwargs protocol t)), None)"
      using step [OF k, of s] by simp
  qed
  have each: "\<forall>t \<in> set (session_indexes idx). \<forall>kw. session_kwargs protocol t = Inr kw \<longrightarrow>
            (\<exists>i1 i2.
               Importer_init b BUILD_EVENTS [] kw = Inr i1 \<and>
               Importer_init b CONVERT_EVENTS [] kw = Inr i2 \<and>
               kwargs i1 = kw \<and> kwargs i2 = kw \<and>
               fallback_retained b kw =
                 (let (c1, h1) = check i1; (c2, h2) = check i2
                  in if \<not> c1 \<and> \<not> errored h1 then []
                     else if \<not> errored h1 then [h1]
                     else if \<not> c2 \<and> \<not> errored h2 then []
                     else if \<not> errored h2 then [h2]
                     else [h1]))"
    using step by (intro ballI allI impI) (rule conjunct2)
  show ?thesis by (rule conjI [OF phase each])
qed

theorem existing_events_fallback_witness:
  "map label (fst (add_existing_events_importers
      (ex_builders (Inl (Exception ''no montage'')) (Inl (Exception ''no session log''))
         (Inr (ex_pipeline (\<lambda>n. Inr True) (\<lambda>n. None))))
      ''r1'' (ex_index [0] None) [])) = [''Events Converter''] \<and>
   snd (add_existing_events_importers
      (ex_builders (Inl (Exception ''no montage'')) (Inl (Exception ''no session log''))
         (Inr (ex_pipeline (\<lambda>n. Inr True) (\<lambda>n. None))))
      ''r1'' (ex_index [0] None) []) = None"
proof -
  let ?b = "ex_builders (Inl (Exception ''no montage'')) (Inl (Exception ''no session log''))
         (Inr (ex_pipeline (\<lambda>n. Inr True) (\<lambda>n. None)))"
  have k: "session_kwargs ''r1'' (''R1001P'', ''FR1'', 0, ex_session_index) = Inr ex_event_kwargs"
    by (simp add: session_kwargs_def ex_existing_kwargs)
  have a: "\<forall>t \<in> set (session_indexes (ex_index [0] None)).
             \<exists>kw. session_kwargs ''r1'' t = Inr kw"
    by (simp add: ex_session_indexes k)
  have r: "map label (fallback_retained ?b ex_event_kwargs) = [''Events Converter'']"
    by (simp add: fallback_retained_def Importer_init_def LABELS_def PIPELINE_BUILDERS_def
          kind_defs ex_builders_def ex_event_kwargs_def set_error_def check_def ex_pipeline_def
          Let_def)
  show ?thesis
    using existing_events_fallback [OF a, of ?b "[]"] r
    by (simp add: ex_session_indexes k)
qed

section \<open>The orchestrator: the future-session phase\<close>

lemma fold_max_Max: "fold max rest (s0 :: int) = Max (set (s0 # rest))"
  by (rule Max.set_eq_fold [symmetric])

lemma ex_future_kwargs_Inr:
  "future_events_kwargs ''r1'' (ex_index sess orig) ''R1001P'' ''0.0'' ''FR1'' =
     Inr (ex_future_kwargs sess orig)"
  by (cases sess)
     (simp_all add: ex_future_kwargs_def future_events_kwargs_def Let_def item_def
        get_value_str_def get_value_int_def filtered_def sessions_def ex_index_def
        split: sum.splits)

text \<open>
  The body of the inner loop, for whatever value its loop variable has: with no
  session recorded for (subject, experiment, latest montage), session and
  original session are 0 and the original experiment is the current name; with
  sessions recorded and \<open>N\<close> their maximum, the session is \<open>N + 1\<close>, the original
  session is the recorded original session plus one (\<open>N + 1\<close> when none is
  recorded) and the original experiment is the recorded one (the current name
  when none is recorded).
\<close>

lemma future_events_kwargs_sessions:
  assumes "future_events_kwargs protocol subj_index subj max_montage experiment = Inr kw"
  shows "let exp_index = filtered (\<lambda>q. q\<lparr>q_montage := Some max_montage,
                                           q_experiment := Some experiment\<rparr>) subj_index;
             sess = sessions exp_index;
             N = Max (set sess);
             recorded_session = get_value_int exp_index ''original_session''
                                  (\<lambda>q. q\<lparr>q_session := Some N\<rparr>);
             recorded_experiment = get_value_str exp_index ''original_experiment''
                                     (\<lambda>q. q\<lparr>q_session := Some N\<rparr>)
         in (sess = [] \<longrightarrow>
               map_of kw ''session'' = Some (PInt 0) \<and>
               map_of kw ''original_session'' = Some (PInt 0) \<and>
               map_of kw ''experiment'' = Some (PStr experiment)) \<and>
            (sess \<noteq> [] \<longrightarrow>
               map_of kw ''session'' = Some (PInt (N + 1)) \<and>
               map_of kw ''original_session'' =
                 Some (PInt (case recorded_session of Inr v \<Rightarrow> v + 1 | Inl e \<Rightarrow> N + 1)) \<and>
               map_of kw ''experiment'' =
                 Some (PStr (case recorded_experiment of Inr v \<Rightarrow> v | Inl e \<Rightarrow> experiment))) \<and>
            map_of kw ''new_experiment'' = Some (PStr experiment) \<and>
            (\<exists>i. Importer_init b BUILD_EVENTS [] kw = Inr i \<and> kwargs i = kw \<and>
                 label i = ''Events Builder'' \<and>
                 future_events_step b protocol subj_index subj max_montage experiment importers =
                   (if fst (check i) then importers @ [snd (check i)] else importers, None))"
proof -
  let ?exp = "filtered (\<lambda>q. q\<lparr>q_montage := Some max_montage,
                               q_experiment := Some experiment\<rparr>) subj_index"
  have s: "map_of kw ''subject'' = Some (PStr subj)"
    "map_of kw ''new_experiment'' = Some (PStr experiment)"
    using assms
    by (auto simp: future_events_kwargs_def Let_def split: sum.splits list.splits prod.splits)
  obtain i where i: "Importer_init b BUILD_EVENTS [] kw = Inr i" "kwargs i = kw"
    "label i = the (LABELS BUILD_EVENTS)"
    using Importer_init_registered [OF _ s(1), of BUILD_EVENTS b "[]"] by auto
  have l: "label i = ''Events Builder''"
    using i(3) by (simp add: LABELS_def kind_defs)
  have step: "future_events_step b protocol subj_index subj max_montage experiment importers =
                   (if fst (check i) then importers @ [snd (check i)] else importers, None)"
    using assms i(1) by (simp add: future_events_step_def split: prod.splits)
  have empty: "map_of kw ''session'' = Some (PInt 0) \<and>
               map_of kw ''original_session'' = Some (PInt 0) \<and>
               map_of kw ''experiment'' = Some (PStr experiment)"
    if "sessions ?exp = []"
    using assms that
    by (auto simp: future_events_kwargs_def Let_def split: sum.splits)
  have nonempty: "map_of kw ''session'' = Some (PInt (Max (set (sessions ?exp)) + 1)) \<and>
               map_of kw ''original_session'' =
                 Some (PInt (case get_value_int ?exp ''original_session''
                                    (\<lambda>q. q\<lparr>q_session := Some (Max (set (sessions ?exp)))\<rparr>) of
                               Inr v \<Rightarrow> v + 1 | Inl e \<Rightarrow> Max (set (sessions ?exp)) + 1)) \<and>
               map_of kw ''experiment'' =
                 Some (PStr (case get_value_str ?exp ''original_experiment''
                                    (\<lambda>q. q\<lparr>q_session := Some (Max (set (sessions ?exp)))\<rparr>) of
                               Inr v \<Rightarrow> v | Inl e \<Rightarrow> experiment))"
    if ne: "sessions ?exp \<noteq> []"
  proof -
    obtain s0 rest where sr: "sessions ?exp = s0 # rest"
      using ne by (cases "sessions ?exp") auto
    have m: "fold max rest s0 = Max (set (sessions ?exp))"
      unfolding sr by (rule fold_max_Max)
    show ?thesis
      using assms sr
      unfolding m [symmetric]
      by (auto simp: future_events_kwargs_def Let_def split: sum.splits)
  qed
  show ?thesis
    unfolding Let_def using s(2) i(1,2) l step empty nonempty by blast
qed

lemma future_events_kwargs_sessions_at:
  "map_of (ex_future_kwargs [] None) ''session'' = Some (PInt 0) \<and>
   map_of (ex_future_kwargs [] None) ''original_session'' = Some (PInt 0) \<and>
   map_of (ex_future_kwargs [0, 1, 2] (Some 5)) ''session'' = Some (PInt 3) \<and>
   map_of (ex_future_kwargs [0, 1, 2] (Some 5)) ''original_session'' = Some (PInt 6) \<and>
   map_of (ex_future_kwargs [0, 1, 2] None) ''original_session'' = Some (PInt 3) \<and>
   map_of (ex_future_kwargs [0, 1, 2] None) ''experiment'' = Some (PStr ''FR1'')"
  using
    future_events_kwargs_sessions [OF ex_future_kwargs_Inr, of "[]" None]
    future_events_kwargs_sessions [OF ex_future_kwargs_Inr, of "[0, 1, 2]" "Some 5"]
    future_events_kwargs_sessions [OF ex_future_kwargs_Inr, of "[0, 1, 2]" None]
  by (simp add: Let_def get_value_str_def get_value_int_def filtered_def sessions_def
        ex_index_def)

text \<open>
  Claim C7 (for every subject and experiment the future-session phase builds the
  handle of the next session) fails on the code by a slip in the loop header:
  \<^verbatim>\<open>for experiment in self.EXPERIMENTS\<close> iterates the dictionary, whose only key
  is the protocol name 'r1', not the experiment names stored under it. On an
  index where FR1 has the sessions 0, 1 and 2, the phase builds a single handle,
  for the experiment name 'r1' with session 0 and original session 0; the handle
  the claim describes for FR1 (session 3, original session 3, which the loop
  body would compute if it were reached with FR1) is never built.
\<close>

theorem future_phase_visits_protocol_names:
  "map fst EXPERIMENTS = [''r1''] \<and>
   sessions (filtered (\<lambda>q. q\<lparr>q_montage := Some ''0.0'', q_experiment := Some ''FR1''\<rparr>)
               (filtered (\<lambda>q. q\<lparr>q_subject := Some ''R1001P''\<rparr>) ex_fr1_index)) = [0, 1, 2] \<and>
   map_of (projr (future_events_kwargs ''r1''
                    (filtered (\<lambda>q. q\<lparr>q_subject := Some ''R1001P''\<rparr>) ex_fr1_index)
                    ''R1001P'' ''0.0'' ''FR1'')) ''session'' = Some (PInt 3) \<and>
   snd (add_future_events_importers ex_ok_builders ''r1'' ex_fr1_index []) = None \<and>
   map kwargs (fst (add_future_events_importers ex_ok_builders ''r1'' ex_fr1_index [])) =
     [[(''subject'', PStr ''R1001P''), (''montage'', PStr ''0.0''),
       (''experiment'', PStr ''r1''), (''session'', PInt 0),
       (''new_experiment'', PStr ''r1''), (''original_session'', PInt 0),
       (''do_math'', PBool False), (''protocol'', PStr ''r1''),
       (''code'', PStr ''R1001P''), (''do_compare'', PBool False)]]"
  by (simp add: add_future_events_importers_def future_events_step_def
        future_events_kwargs_def subjects_def montages_def sessions_def filtered_def py_max_def
        EXPERIMENTS_def MATH_TASKS_def
        item_def get_value_str_def get_value_int_def ex_fr1_index_def Importer_init_def
        PIPELINE_BUILDERS_def LABELS_def kind_defs ex_ok_builders_def ex_builders_def
        check_def ex_pipeline_def Let_def)

section \<open>The orchestrator: the report order\<close>

lemma ex_checked_fields:
  "initialized (ex_checked r)"
  "errored (ex_checked r) = isl r"
  "order_key (ex_checked (Inl e)) = (True, True, Some False, False, False, 2, 0, ''R1001P'')"
  "order_key (ex_checked (Inr v)) = (True, False, Some v, False, False, 2, 0, ''R1001P'')"
  by (cases r; simp add: ex_checked_def ex_importer_built check_Some ex_pipeline_def order_key_def)+

text \<open>
  Claim C8 as stated does not hold in its conclusion that handles that errored
  sort first: the sort is ascending and False is below True, so of two
  initialized handles the error-free one comes before the errored one.
\<close>

theorem sorted_importers_counterexample:
  "initialized (ex_checked (Inl (Exception ''unreadable''))) \<and>
   initialized (ex_checked (Inr True)) \<and>
   errored (ex_checked (Inl (Exception ''unreadable''))) \<and>
   \<not> errored (ex_checked (Inr True)) \<and>
   sorted_importers [ex_checked (Inl (Exception ''unreadable'')), ex_checked (Inr True)] =
     [ex_checked (Inr True), ex_checked (Inl (Exception ''unreadable''))]"
  by (simp add: ex_checked_fields sorted_importers_def)

text \<open>
  Claim C8, amended. \<^verbatim>\<open>sorted_importers()\<close> returns the same handles (a
  permutation, no handle is changed) in ascending lexicographic order of the six
  attributes initialized, errored, \<^verbatim>\<open>_should_transfer\<close>, transferred, processed
  and subject, with False below True and None below both: of two positions
  \<open>i < j\<close> of the result, the handle at \<open>i\<close> is smaller in the first attribute
  where the two differ. The sort is stable: handles that agree on all six keep
  the order they had. So a handle that failed to initialize never comes after an
  initialized one, and among handles with the same \<open>initialized\<close> flag an errored
  handle never comes before an error-free one.
\<close>

theorem sorted_importers_order:
  "mset (sorted_importers importers) = mset importers \<and>
   (\<forall>i j. i < j \<and> j < length importers \<longrightarrow>
      (let a = sorted_importers importers ! i; b = sorted_importers importers ! j
       in initialized a < initialized b \<or> initialized a = initialized b \<and>
          (errored a < errored b \<or> errored a = errored b \<and>
          (priv_should_transfer a < priv_should_transfer b \<or>
             priv_should_transfer a = priv_should_transfer b \<and>
          (transferred a < transferred b \<or> transferred a = transferred b \<and>
          (processed a < processed b \<or> processed a = processed b \<and>
           py_rank (subject a) \<le> py_rank (subject b))))))) \<and>
   (\<forall>k. filter (\<lambda>imp. (initialized imp, errored imp, priv_should_transfer imp,
                         transferred imp, processed imp, py_rank (subject imp)) = k)
          (sorted_importers importers) =
        filter (\<lambda>imp. (initialized imp, errored imp, priv_should_transfer imp,
                         transferred imp, processed imp, py_rank (subject imp)) = k)
          importers) \<and>
   (\<forall>i j. i < j \<and> j < length importers \<longrightarrow>
      (initialized (sorted_importers importers ! i) \<longrightarrow>
         initialized (sorted_importers importers ! j)) \<and>
      (initialized (sorted_importers importers ! i) = initialized (sorted_importers importers ! j) \<longrightarrow>
         errored (sorted_importers importers ! i) \<longrightarrow>
         errored (sorted_importers importers ! j)))"
proof -
  let ?S = "sorted_importers importers"
  have srt: "sorted (map order_key ?S)"
    by (simp add: sorted_importers_def)
  have len: "length ?S = length importers" by (simp add: sorted_importers_def)
  have perm: "mset ?S = mset importers"
    by (simp add: sorted_importers_def)
  have key: "order_key (?S ! i) \<le> order_key (?S ! j)"
    if ij: "i < j" "j < length importers" for i j
  proof -
    have "map order_key ?S ! i \<le> map order_key ?S ! j"
      using srt ij len by (simp add: sorted_iff_nth_mono del: nth_map)
    then show ?thesis using ij len by simp
  qed
  have lex: "let a = ?S ! i; b = ?S ! j
       in initialized a < initialized b \<or> initialized a = initialized b \<and>
          (errored a < errored b \<or> errored a = errored b \<and>
          (priv_should_transfer a < priv_should_transfer b \<or>
             priv_should_transfer a = priv_should_transfer b \<and>
          (transferred a < transferred b \<or> transferred a = transferred b \<and>
          (processed a < processed b \<or> processed a = processed b \<and>
           py_rank (subject a) \<le> py_rank (subject b)))))"
    if ij: "i < j" "j < length importers" for i j
    using key [OF ij] unfolding Let_def order_key_def less_eq_prod_def fst_conv snd_conv
    by (metis order_le_less)
  have stable: "\<forall>k. filter (\<lambda>imp. (initialized imp, errored imp, priv_should_transfer imp,
                         transferred imp, processed imp, py_rank (subject imp)) = k) ?S =
        filter (\<lambda>imp. (initialized imp, errored imp, priv_should_transfer imp,
                         transferred imp, processed imp, py_rank (subject imp)) = k) importers"
    using sort_key_stable [of order_key _ importers]
    by (simp add: sorted_importers_def order_key_def)
  have pos: "(initialized (?S ! i) \<longrightarrow> initialized (?S ! j)) \<and>
      (initialized (?S ! i) = initialized (?S ! j) \<longrightarrow> errored (?S ! i) \<longrightarrow> errored (?S ! j))"
    if ij: "i < j" "j < length importers" for i j
    using key [OF ij] by (auto simp: order_key_def less_eq_prod_def)
  show ?thesis using perm lex stable pos by blast
qed

theorem sorted_importers_order_witness:
  "priv_should_transfer (sorted_importers [ex_checked (Inr True), ex_checked (Inr False)] ! 0)
     = Some False \<and>
   priv_should_transfer (sorted_importers [ex_checked (Inr True), ex_checked (Inr False)] ! 1)
     = Some True \<and>
   mset (sorted_importers [ex_checked (Inr True), ex_checked (Inr False)]) =
     mset [ex_checked (Inr True), ex_checked (Inr False)] \<and>
   \<not> errored (sorted_importers
        [ex_checked (Inl (Exception ''unreadable'')), ex_checked (Inr True)] ! 0) \<and>
   errored (sorted_importers
        [ex_checked (Inl (Exception ''unreadable'')), ex_checked (Inr True)] ! 1)"
proof -
  let ?L = "[ex_checked (Inr True), ex_checked (Inr False)]"
  let ?M = "[ex_checked (Inl (Exception ''unreadable'')), ex_checked (Inr True)]"
  have f: "priv_should_transfer (ex_checked (Inr True)) = Some True"
    "priv_should_transfer (ex_checked (Inr False)) = Some False"
    by (simp_all add: ex_checked_def ex_importer_built check_Some ex_pipeline_def)
  have m: "mset (sorted_importers ?L) = mset ?L"
    and o: "let a = sorted_importers ?L ! 0; b = sorted_importers ?L ! 1
       in initialized a < initialized b \<or> initialized a = initialized b \<and>
          (errored a < errored b \<or> errored a = errored b \<and>
          (priv_should_transfer a < priv_should_transfer b \<or>
             priv_should_transfer a = priv_should_transfer b \<and>
          (transferred a < transferred b \<or> transferred a = transferred b \<and>
          (processed a < processed b \<or> processed a = processed b \<and>
           py_rank (subject a) \<le> py_rank (subject b)))))"
    using sorted_importers_order [of ?L] by simp_all
  have s: "sorted_importers ?L = [ex_checked (Inr False), ex_checked (Inr True)]"
    by (simp add: ex_checked_fields sorted_importers_def)
  have e: "\<not> errored (sorted_importers ?M ! 0)" "errored (sorted_importers ?M ! 1)"
    by (simp_all add: ex_checked_fields sorted_importers_def)
  show ?thesis using m o s f e by simp
qed

section \<open>The orchestrator: the order of the phases\<close>

lemma for_each_append:
  assumes "\<And>x s. body x s = (s @ fst (body x []), snd (body x []))"
  shows "for_each body xs s = (s @ fst (for_each body xs []), snd (for_each body xs []))"
proof (induction xs arbitrary: s)
  case Nil
  show ?case by simp
next
  case (Cons x xs)
  obtain a e where b: "body x [] = (a, e)" by (cases "body x []")
  have bs: "body x s = (s @ a, e)" using assms [of x s] b by simp
  show ?case
  proof (cases e)
    case None
    have "for_each body (x # xs) s = for_each body xs (s @ a)" using bs None by simp
    also have "\<dots> = ((s @ a) @ fst (for_each body xs []), snd (for_each body xs []))"
      by (rule Cons.IH)
    finally have l: "for_each body (x # xs) s =
        (s @ a @ fst (for_each body xs []), snd (for_each body xs []))" by simp
    have "for_each body (x # xs) [] = for_each body xs a" using b None by simp
    also have "\<dots> = (a @ fst (for_each body xs []), snd (for_each body xs []))"
      by (rule Cons.IH)
    finally show ?thesis using l by simp
  next
    case (Some err)
    then show ?thesis using b bs by simp
  qed
qed

lemma montage_step_append:
  "montage_step b protocol idx subj montage s =
     (s @ fst (montage_step b protocol idx subj montage []),
      snd (montage_step b protocol idx subj montage []))"
  by (simp add: montage_step_def split: sum.splits prod.splits)

lemma existing_events_step_append:
  "existing_events_step b protocol x s =
     (s @ fst (existing_events_step b protocol x []), snd (existing_events_step b protocol x []))"
  by (cases x)
     (simp add: existing_events_step_def existing_events_cascade_def split: sum.splits prod.splits)

lemma future_events_step_append:
  "future_events_step b protocol subj_index subj max_montage experiment s =
     (s @ fst (future_events_step b protocol subj_index subj max_montage experiment []),
      snd (future_events_step b protocol subj_index subj max_montage experiment []))"
  by (simp add: future_events_step_def split: sum.splits prod.splits)

lemma add_existing_montage_importers_append:
  "add_existing_montage_importers b protocol idx s =
     (s @ fst (add_existing_montage_importers b protocol idx []),
      snd (add_existing_montage_importers b protocol idx []))"
  unfolding add_existing_montage_importers_def
  by (rule for_each_append, rule for_each_append, rule montage_step_append)

lemma add_existing_events_importers_append:
  "add_existing_events_importers b protocol idx s =
     (s @ fst (add_existing_events_importers b protocol idx []),
      snd (add_existing_events_importers b protocol idx []))"
  unfolding add_existing_events_importers_def
  by (rule for_each_append, rule existing_events_step_append)

lemma add_future_events_importers_append:
  "add_future_events_importers b protocol idx s =
     (s @ fst (add_future_events_importers b protocol idx []),
      snd (add_future_events_importers b protocol idx []))"
  unfolding add_future_events_importers_def
proof (rule for_each_append)
  fix subj :: string and s :: "importer list"
  let ?si = "filtered (\<lambda>q. q\<lparr>q_subject := Some subj\<rparr>) idx"
  show "(let subj_index = ?si
         in case py_max (montages subj_index id) of
              Inl e \<Rightarrow> (s, Some e)
            | Inr max_montage \<Rightarrow>
                for_each (future_events_step b protocol subj_index subj max_montage)
                  (map fst EXPERIMENTS) s) =
        (s @ fst (let subj_index = ?si
                  in case py_max (montages subj_index id) of
                       Inl e \<Rightarrow> ([], Some e)
                     | Inr max_montage \<Rightarrow>
                         for_each (future_events_step b protocol subj_index subj max_montage)
                           (map fst EXPERIMENTS) []),
         snd (let subj_index = ?si
              in case py_max (montages subj_index id) of
                   Inl e \<Rightarrow> ([], Some e)
                 | Inr max_montage \<Rightarrow>
                     for_each (future_events_step b protocol subj_index subj max_montage)
                       (map fst EXPERIMENTS) []))"
  proof (cases "py_max (montages ?si id)")
    case (Inl e)
    then show ?thesis by simp
  next
    case (Inr m)
    show ?thesis
      using for_each_append [of "future_events_step b protocol ?si subj m" "map fst EXPERIMENTS" s,
              OF future_events_step_append]
      by (simp add: Inr)
  qed
qed

lemma populate_importers_sequence:
  "populate_importers b protocol idx [] =
     (case add_existing_events_importers b protocol idx [] of
        (E, Some e) \<Rightarrow> (E, Some e)
      | (E, None) \<Rightarrow>
          (case add_existing_montage_importers b protocol idx [] of
             (M, Some e) \<Rightarrow> (E @ M, Some e)
           | (M, None) \<Rightarrow>
               (case add_future_events_importers b protocol idx [] of
                  (F, r) \<Rightarrow> (E @ M @ F, r))))"
proof -
  obtain E re where e: "add_existing_events_importers b protocol idx [] = (E, re)"
    by (cases "add_existing_events_importers b protocol idx []")
  obtain M rm where m: "add_existing_montage_importers b protocol idx [] = (M, rm)"
    by (cases "add_existing_montage_importers b protocol idx []")
  obtain F rf where f: "add_future_events_importers b protocol idx [] = (F, rf)"
    by (cases "add_future_events_importers b protocol idx []")
  have m': "add_existing_montage_importers b protocol idx E = (E @ M, rm)"
    using add_existing_montage_importers_append [of b protocol idx E] m by simp
  have f': "add_future_events_importers b protocol idx (E @ M) = (E @ M @ F, rf)"
    using add_future_events_importers_append [of b protocol idx "E @ M"] f by simp
  show ?thesis
    by (cases re; cases rm; simp add: populate_importers_def and_then_def e m f m' f')
qed

lemma ex_existing_phase:
  "map label (fst (add_existing_events_importers ex_ok_builders ''r1'' (ex_index [0] None) [])) =
     [''Events Builder'']"
  "snd (add_existing_events_importers ex_ok_builders ''r1'' (ex_index [0] None) []) = None"
  by (simp_all add: add_existing_events_importers_def ex_session_indexes existing_events_step_def
        ex_existing_kwargs existing_events_cascade_def Importer_init_def PIPELINE_BUILDERS_def
        LABELS_def kind_defs ex_ok_builders_def ex_builders_def ex_event_kwargs_def
        check_def ex_pipeline_def Let_def)

lemma ex_montage_phase:
  "map label (fst (add_existing_montage_importers ex_ok_builders ''r1'' (ex_index [0] None) [])) =
     [''Montage Importer'']"
  "snd (add_existing_montage_importers ex_ok_builders ''r1'' (ex_index [0] None) []) = None"
  by (simp_all add: add_existing_montage_importers_def montage_step_def subjects_def montages_def
        item_def get_value_str_def ex_index_def Importer_init_def PIPELINE_BUILDERS_def
        LABELS_def kind_defs ex_ok_builders_def ex_builders_def
        check_def ex_pipeline_def Let_def)

lemma ex_future_phase:
  "map label (fst (add_future_events_importers ex_ok_builders ''r1'' (ex_index [0] None) [])) =
     [''Events Builder'']"
  "snd (add_future_events_importers ex_ok_builders ''r1'' (ex_index [0] None) []) = None"
  by (simp_all add: add_future_events_importers_def future_events_step_def
        future_events_kwargs_def subjects_def montages_def sessions_def filtered_def py_max_def
        EXPERIMENTS_def MATH_TASKS_def
        item_def get_value_str_def get_value_int_def ex_index_def Importer_init_def
        PIPELINE_BUILDERS_def LABELS_def kind_defs ex_ok_builders_def ex_builders_def
        check_def ex_pipeline_def Let_def)

lemma ex_populate:
  "fst (populate_importers ex_ok_builders ''r1'' (ex_index [0] None) []) =
     fst (add_existing_events_importers ex_ok_builders ''r1'' (ex_index [0] None) []) @
     fst (add_existing_montage_importers ex_ok_builders ''r1'' (ex_index [0] None) []) @
     fst (add_future_events_importers ex_ok_builders ''r1'' (ex_index [0] None) [])"
  using ex_existing_phase(2) ex_montage_phase(2) ex_future_phase(2)
  by (auto simp: populate_importers_sequence split: prod.splits)

text \<open>
  Claim C9 as stated does not hold for the order: \<^verbatim>\<open>populate_importers()\<close>
  calls the existing-session phase first and the montage phase second, so the
  handle of an existing session comes before the montage handle.
\<close>

theorem populate_importers_counterexample:
  "map label (fst (populate_importers ex_ok_builders ''r1'' (ex_index [0] None) [])) =
     [''Events Builder'', ''Montage Importer'', ''Events Builder''] \<and>
   map label
     (fst (add_existing_montage_importers ex_ok_builders ''r1'' (ex_index [0] None) []) @
      fst (add_existing_events_importers ex_ok_builders ''r1'' (ex_index [0] None) []) @
      fst (add_future_events_importers ex_ok_builders ''r1'' (ex_index [0] None) [])) =
     [''Montage Importer'', ''Events Builder'', ''Events Builder''] \<and>
   fst (populate_importers ex_ok_builders ''r1'' (ex_index [0] None) []) \<noteq>
     fst (add_existing_montage_importers ex_ok_builders ''r1'' (ex_index [0] None) []) @
     fst (add_existing_events_importers ex_ok_builders ''r1'' (ex_index [0] None) []) @
     fst (add_future_events_importers ex_ok_builders ''r1'' (ex_index [0] None) [])"
proof -
  let ?P = "fst (populate_importers ex_ok_builders ''r1'' (ex_index [0] None) [])"
  let ?E = "fst (add_existing_events_importers ex_ok_builders ''r1'' (ex_index [0] None) [])"
  let ?M = "fst (add_existing_montage_importers ex_ok_builders ''r1'' (ex_index [0] None) [])"
  let ?F = "fst (add_future_events_importers ex_ok_builders ''r1'' (ex_index [0] None) [])"
  have p: "map label ?P = [''Events Builder'', ''Montage Importer'', ''Events Builder'']"
    unfolding ex_populate
    by (simp add: ex_existing_phase(1) ex_montage_phase(1) ex_future_phase(1))
  have c: "map label (?M @ ?E @ ?F) = [''Montage Importer'', ''Events Builder'', ''Events Builder'']"
    by (simp add: ex_existing_phase(1) ex_montage_phase(1) ex_future_phase(1))
  have "map label ?P \<noteq> map label (?M @ ?E @ ?F)"
    unfolding p c by simp
  then have "?P \<noteq> ?M @ ?E @ ?F" by metis
  with p c show ?thesis by simp
qed

text \<open>
  Claim C9, amended. \<^verbatim>\<open>populate_importers()\<close> runs the existing-session phase,
  then the montage phase, then the future-session phase; each phase appends its
  survivors, which do not depend on what is already in the list, and nothing is
  removed or deduplicated. Starting from the empty list the result is therefore
  the existing-session survivors, followed by the montage survivors, followed by
  the future-session survivors; a phase that raises ends the run with what was
  appended until then.
\<close>

theorem populate_importers_phases:
  assumes "add_existing_events_importers b protocol idx [] = (E, re)"
    and "add_existing_montage_importers b protocol idx [] = (M, rm)"
    and "add_future_events_importers b protocol idx [] = (F, rf)"
  shows "populate_importers b protocol idx [] =
           (if re \<noteq> None then (E, re)
            else if rm \<noteq> None then (E @ M, rm)
            else (E @ M @ F, rf))"
  using assms by (cases re; cases rm; simp add: populate_importers_sequence)

theorem populate_importers_phases_witness:
  "map label (fst (populate_importers ex_ok_builders ''r1'' (ex_index [0] None) [])) =
     [''Events Builder'', ''Montage Importer'', ''Events Builder''] \<and>
   snd (populate_importers ex_ok_builders ''r1'' (ex_index [0] None) []) = None"
proof -
  obtain E re where e:
    "add_existing_events_importers ex_ok_builders ''r1'' (ex_index [0] None) [] = (E, re)"
    by (cases "add_existing_events_importers ex_ok_builders ''r1'' (ex_index [0] None) []")
  obtain M rm where m:
    "add_existing_montage_importers ex_ok_builders ''r1'' (ex_index [0] None) [] = (M, rm)"
    by (cases "add_existing_montage_importers ex_ok_builders ''r1'' (ex_index [0] None) []")
  obtain F rf where f:
    "add_future_events_importers ex_ok_builders ''r1'' (ex_index [0] None) [] = (F, rf)"
    by (cases "add_future_events_importers ex_ok_builders ''r1'' (ex_index [0] None) []")
  have v: "re = None" "rm = None" "rf = None"
    "map label E = [''Events Builder'']" "map label M = [''Montage Importer'']"
    "map label F = [''Events Builder'']"
    using ex_existing_phase ex_montage_phase ex_future_phase by (simp_all add: e m f)
  show ?thesis
    using populate_importers_phases [OF e m f] v by simp
qed

end
